theory Spec2Isabelle
  imports Complex_Main "HOL-Library.Sublist" "HOL-Library.AList"
begin

section \<open>r.in.landsat8: metadata extraction and reflectance expressions\<close>

text \<open>
  The script \<^verbatim>\<open>r.in.landsat8.py\<close> reads, for every scene directory, the file
  \<^verbatim>\<open><scene>_MTL.txt\<close>, collects the reflectance coefficients and the sun elevation
  in a dict, and then asks GRASS, band by band, to import the band's GeoTIFF and to
  evaluate one \<^verbatim>\<open>r.mapcalc\<close> expression.

  The embedding follows the script function by function. Strings are \<open>string\<close>.
  An exception is a value of \<open>py_error\<close>. The calls made to GRASS
  (\<^verbatim>\<open>grass.message\<close>, \<^verbatim>\<open>grass.run_command\<close>, \<^verbatim>\<open>grass.mapcalc\<close>) are recorded,
  in order, as a list of \<open>action\<close>s; the calls themselves are taken to return
  normally. The script is written for GRASS 7.0, whose interpreter is Python 2.7;
  the string and \<^verbatim>\<open>float\<close> primitives below are those of Python 2.7 on byte strings.
\<close>

subsection \<open>Python string primitives\<close>

text \<open>\<^verbatim>\<open>sub in s\<close>: \<open>sub\<close> occurs in \<open>s\<close> as a contiguous substring.\<close>

fun contains :: "string \<Rightarrow> string \<Rightarrow> bool" where
  "contains sub [] = (sub = [])"
| "contains sub (c # cs) = (prefix sub (c # cs) \<or> contains sub cs)"

text \<open>
  \<^verbatim>\<open>s.split(sep)\<close> for a one-character separator: the pieces between all occurrences
  of the separator, so a string with \<open>n\<close> separators gives \<open>n + 1\<close> pieces.
\<close>

fun split_from :: "char \<Rightarrow> string \<Rightarrow> string \<Rightarrow> string list" where
  "split_from sep acc [] = [rev acc]"
| "split_from sep acc (c # cs) =
     (if c = sep then rev acc # split_from sep [] cs
      else split_from sep (c # acc) cs)"

definition split :: "char \<Rightarrow> string \<Rightarrow> string list" where
  "split sep s = split_from sep [] s"

text \<open>The characters of \<^verbatim>\<open>string.whitespace\<close>: tab, newline, VT, FF, CR and space.\<close>

definition is_space :: "char \<Rightarrow> bool" where
  "is_space c \<longleftrightarrow> c \<in> set [CHR 0x09, CHR 0x0A, CHR 0x0B, CHR 0x0C, CHR 0x0D, CHR 0x20]"

definition strip :: "string \<Rightarrow> string" where
  "strip s = rev (dropWhile is_space (rev (dropWhile is_space s)))"

definition lower_char :: "char \<Rightarrow> char" where
  "lower_char c =
     (case map_of (zip ''ABCDEFGHIJKLMNOPQRSTUVWXYZ'' ''abcdefghijklmnopqrstuvwxyz'') c of
        Some l \<Rightarrow> l
      | None \<Rightarrow> c)"

definition lower :: "string \<Rightarrow> string" where
  "lower s = map lower_char s"

text \<open>
  \<^verbatim>\<open>os.path.basename\<close> and \<^verbatim>\<open>os.path.join\<close> of \<^verbatim>\<open>posixpath\<close>: the base name is what
  follows the last slash; joining puts one slash between the parts unless the
  first part is empty or ends with one, and an absolute second part replaces the first.
\<close>

definition basename :: "string \<Rightarrow> string" where
  "basename p = rev (takeWhile (\<lambda>c. c \<noteq> CHR ''/'') (rev p))"

definition path_join :: "string \<Rightarrow> string \<Rightarrow> string" where
  "path_join a b =
     (if prefix ''/'' b then b
      else if a = [] \<or> suffix ''/'' a then a @ b
      else a @ ''/'' @ b)"

text \<open>
  \<^verbatim>\<open>m.readlines()\<close>: the contents cut after every newline, each line keeping its
  newline; a last line without newline is kept as it is.
\<close>

fun lines_from :: "string \<Rightarrow> string \<Rightarrow> string list" where
  "lines_from acc [] = (if acc = [] then [] else [rev acc])"
| "lines_from acc (c # cs) =
     (if c = CHR 0x0A then rev (c # acc) # lines_from [] cs
      else lines_from (c # acc) cs)"

definition readlines :: "string \<Rightarrow> string list" where
  "readlines contents = lines_from [] contents"

text \<open>\<^verbatim>\<open>str(n)\<close> for a non-negative integer: its decimal digits.\<close>

definition digit_char :: "nat \<Rightarrow> char" where
  "digit_char d = ''0123456789'' ! d"

fun str_nat :: "nat \<Rightarrow> string" where
  "str_nat n = (if n < 10 then [digit_char n] else str_nat (n div 10) @ [digit_char (n mod 10)])"

declare str_nat.simps [simp del]


subsection \<open>Python floats\<close>

text \<open>
  A Python float is an IEEE 754 double: a finite value, an infinity or a NaN. A
  finite double is a real number of the form \<open>m * 2 ^ e\<close> with \<open>m < 2 ^ 53\<close>, and the
  model keeps that number: \<open>Fin x\<close>, with \<open>NZero\<close> for the negative zero. Every
  operation of the script that produces a float rounds as the hardware does, to the
  nearest double with a tie to the even one: \<^verbatim>\<open>float\<close> of a literal and \<^verbatim>\<open>90.0 - sun\<close>.
\<close>

datatype pyfloat = Fin real | NZero | PInf | NInf | NaN

text \<open>The real number a finite float stands for.\<close>

fun fval :: "pyfloat \<Rightarrow> real" where
  "fval (Fin x) = x"
| "fval NZero = 0"
| "fval PInf = 0"
| "fval NInf = 0"
| "fval NaN = 0"

fun is_finite :: "pyfloat \<Rightarrow> bool" where
  "is_finite (Fin x) = True"
| "is_finite NZero = True"
| "is_finite PInf = False"
| "is_finite NInf = False"
| "is_finite NaN = False"

text \<open>Rounding to the nearest integer, a tie to the even one.\<close>

definition round_half_even :: "real \<Rightarrow> int" where
  "round_half_even x =
     (let q = \<lfloor>x\<rfloor>; f = x - of_int q
      in if f < 1 / 2 then q else if 1 / 2 < f then q + 1 else if even q then q else q + 1)"

text \<open>
  The binary exponent of a magnitude, within the range of the doubles: the largest
  \<open>e\<close> from \<open>1023\<close> down to \<open>-1022\<close> with \<open>2 ^ e \<le> x\<close>, and \<open>-1022\<close> when there is none (the
  subnormal range). The search runs downwards from \<open>1023\<close>.
\<close>

fun binade_from :: "nat \<Rightarrow> int \<Rightarrow> real \<Rightarrow> int" where
  "binade_from 0 e x = e"
| "binade_from (Suc n) e x = (if 2 powi e \<le> x then e else binade_from n (e - 1) x)"

definition binade :: "real \<Rightarrow> int" where
  "binade x = binade_from 2045 1023 x"

text \<open>
  The double nearest to a magnitude \<open>x \<ge> 0\<close>: \<open>x\<close> is rounded to a multiple of the
  spacing \<open>2 ^ (binade x - 52)\<close> of the doubles around it; a result of \<open>2 ^ 1024\<close> or more
  is beyond the largest double, which is \<open>None\<close> here and an infinity in Python.
\<close>

definition round_mag :: "real \<Rightarrow> real option" where
  "round_mag x =
     (let e = binade x - 52;
          r = real_of_int (round_half_even (x / 2 powi e)) * 2 powi e
      in if 2 powi 1024 \<le> r then None else Some r)"

text \<open>The float nearest to the number with the given sign (\<open>True\<close> for minus) and magnitude.\<close>

definition to_double :: "bool \<Rightarrow> real \<Rightarrow> pyfloat" where
  "to_double neg x =
     (case round_mag x of
        None \<Rightarrow> (if neg then NInf else PInf)
      | Some r \<Rightarrow> (if neg then (if r = 0 then NZero else Fin (- r)) else Fin r))"

definition is_digit :: "char \<Rightarrow> bool" where
  "is_digit c \<longleftrightarrow> c \<in> set ''0123456789''"

definition digit_val :: "char \<Rightarrow> nat" where
  "digit_val c =
     (case map_of (zip ''0123456789'' [0, 1, 2, 3, 4, 5, 6, 7, 8, 9]) c of
        Some d \<Rightarrow> d
      | None \<Rightarrow> 0)"

definition digits_val :: "string \<Rightarrow> nat" where
  "digits_val ds = foldl (\<lambda>n c. 10 * n + digit_val c) 0 ds"

text \<open>An optional sign in front: \<open>True\<close> for a minus.\<close>

fun take_sign :: "string \<Rightarrow> bool \<times> string" where
  "take_sign [] = (False, [])"
| "take_sign (c # cs) =
     (if c = CHR ''-'' then (True, cs)
      else if c = CHR ''+'' then (False, cs)
      else (False, c # cs))"

text \<open>The exponent part of a literal: nothing, or \<^verbatim>\<open>e\<close>/\<^verbatim>\<open>E\<close>, an optional sign and digits.\<close>

fun exponent :: "string \<Rightarrow> int option" where
  "exponent [] = Some 0"
| "exponent (c # cs) =
     (if c = CHR ''e'' \<or> c = CHR ''E'' then
        (case take_sign cs of (neg, ds) \<Rightarrow>
           if ds \<noteq> [] \<and> list_all is_digit ds
           then Some (if neg then - int (digits_val ds) else int (digits_val ds))
           else None)
      else None)"

definition scale10 :: "real \<Rightarrow> int \<Rightarrow> real" where
  "scale10 m e = (if 0 \<le> e then m * 10 ^ nat e else m / 10 ^ nat (- e))"

text \<open>
  An unsigned decimal literal: digits, an optional point with digits (at least one
  digit on one side of the point), an optional exponent.
\<close>

definition decimal :: "string \<Rightarrow> real option" where
  "decimal u =
     (let ip = takeWhile is_digit u;
          r1 = dropWhile is_digit u;
          fp = (if prefix ''.'' r1 then takeWhile is_digit (tl r1) else []);
          r2 = (if prefix ''.'' r1 then dropWhile is_digit (tl r1) else r1)
      in if ip = [] \<and> fp = [] then None
         else (case exponent r2 of
                 None \<Rightarrow> None
               | Some e \<Rightarrow> Some (scale10 (of_nat (digits_val (ip @ fp))) (e - int (length fp)))))"

text \<open>
  \<^verbatim>\<open>float(s)\<close> on a string: white space around the literal is dropped; the literal
  is a signed decimal literal, or \<^verbatim>\<open>inf\<close>, \<^verbatim>\<open>infinity\<close> or \<^verbatim>\<open>nan\<close> in any case. The
  result is the double nearest to the literal's value. \<open>None\<close> stands for the
  \<^verbatim>\<open>ValueError\<close> that \<^verbatim>\<open>float\<close> raises.
\<close>

definition py_float :: "string \<Rightarrow> pyfloat option" where
  "py_float s =
     (case take_sign (strip s) of (neg, u) \<Rightarrow>
        if lower u = ''inf'' \<or> lower u = ''infinity'' then Some (if neg then NInf else PInf)
        else if lower u = ''nan'' then Some NaN
        else (case decimal u of
                None \<Rightarrow> None
              | Some q \<Rightarrow> Some (to_double neg q)))"

text \<open>
  \<^verbatim>\<open>90.0 - sun\<close>: the double nearest to the difference; a difference of zero is the
  positive zero.
\<close>

fun sub_from_90 :: "pyfloat \<Rightarrow> pyfloat" where
  "sub_from_90 (Fin x) = to_double (90 - x < 0) \<bar>90 - x\<bar>"
| "sub_from_90 NZero = Fin 90"
| "sub_from_90 PInf = NInf"
| "sub_from_90 NInf = PInf"
| "sub_from_90 NaN = NaN"

text \<open>
  \<^verbatim>\<open>'{:f}'.format(x)\<close> and \<^verbatim>\<open>'%f' % x\<close>: fixed-point notation with six digits after the
  point, the value of the double rounded to the nearest such number, a tie to the
  even one. \<open>micro x\<close> is the rounded magnitude in millionths, \<open>fixed_digits\<close> writes
  it.
\<close>

definition micro :: "real \<Rightarrow> nat" where
  "micro x = nat (round_half_even (\<bar>x\<bar> * 1000000))"

definition pad6 :: "string \<Rightarrow> string" where
  "pad6 s = drop (length s) ''000000'' @ s"

definition fixed_digits :: "nat \<Rightarrow> string" where
  "fixed_digits n = str_nat (n div 1000000) @ ''.'' @ pad6 (str_nat (n mod 1000000))"

fun format_f :: "pyfloat \<Rightarrow> string" where
  "format_f (Fin x) = (if x < 0 then ''-'' else []) @ fixed_digits (micro x)"
| "format_f NZero = ''-'' @ fixed_digits 0"
| "format_f PInf = ''inf''"
| "format_f NInf = ''-inf''"
| "format_f NaN = ''nan''"


subsection \<open>Errors, GRASS calls, file system\<close>

text \<open>
  \<open>IOError\<close> is what \<^verbatim>\<open>open\<close> raises on a missing file, \<open>OSError\<close> what
  \<^verbatim>\<open>os.listdir\<close> raises on a missing directory, \<open>ValueError\<close> what a failed
  unpacking of \<^verbatim>\<open>key, val = ...\<close> and a failed \<^verbatim>\<open>float\<close> raise, and \<open>KeyError k\<close> what
  a dict raises for the missing key \<open>k\<close>. No function of the script catches an
  exception.
\<close>

datatype py_error = IOError | OSError | ValueError | KeyError string

text \<open>
  The calls to the GRASS scripting library: a log message, a module run with its
  keyword arguments and its \<^verbatim>\<open>overwrite\<close> flag, and an \<^verbatim>\<open>r.mapcalc\<close> expression with
  its \<^verbatim>\<open>overwrite\<close> flag.
\<close>

datatype action =
    Message string
  | Run_command string "(string \<times> string) list" bool
  | Mapcalc string bool

text \<open>
  What the script sees of the file system: the contents of the regular files and
  the entries of the directories, by path.
\<close>

record filesystem =
  files :: "string \<rightharpoonup> string"
  dirs :: "string \<rightharpoonup> string list"

definition isdir :: "filesystem \<Rightarrow> string \<Rightarrow> bool" where
  "isdir fs p \<longleftrightarrow> dirs fs p \<noteq> None"

subsection \<open>\<^verbatim>\<open>get_metadata\<close>\<close>

text \<open>
  The dict \<^verbatim>\<open>mtl_dict\<close> is an association list with distinct keys: an assignment
  to a new key appends, an assignment to a key already there replaces its value in
  place (\<open>AList.update\<close>), a lookup is \<open>map_of\<close>. The list order is the order in which
  the last loop of \<^verbatim>\<open>get_metadata\<close> logs the entries; it is the insertion order
  here, where Python 2 goes by hash, and nothing but the order of those log lines
  depends on it.
\<close>

type_synonym table = "(string \<times> pyfloat) list"

text \<open>
  Lines 59--60 (and 63--64, 67--68): \<^verbatim>\<open>key, val = lines[i].split('=')\<close> needs exactly
  two pieces, then \<^verbatim>\<open>mtl_dict[key.strip()] = float(val)\<close>.
\<close>

definition parse_line :: "string \<Rightarrow> py_error + (string \<times> pyfloat)" where
  "parse_line l =
     (case split CHR ''='' l of
        [key, val] \<Rightarrow>
          (case py_float val of
             None \<Rightarrow> Inl ValueError
           | Some v \<Rightarrow> Inr (strip key, v))
      | _ \<Rightarrow> Inl ValueError)"

text \<open>One of the three \<^verbatim>\<open>if marker in lines[i]\<close> blocks of the loop body.\<close>

definition scan_marker :: "string \<Rightarrow> string \<Rightarrow> table \<Rightarrow> py_error + table" where
  "scan_marker marker l d =
     (if contains marker l then
        (case parse_line l of
           Inl e \<Rightarrow> Inl e
         | Inr (k, v) \<Rightarrow> Inr (AList.update k v d))
      else Inr d)"

text \<open>
  The loop body: the three blocks one after the other, each on the same line. The
  counter \<^verbatim>\<open>cnt\<close> of this loop is never read and is left out.
\<close>

definition scan_line :: "string \<Rightarrow> table \<Rightarrow> py_error + table" where
  "scan_line l d =
     (case scan_marker ''REFLECTANCE_MULT_'' l d of
        Inl e \<Rightarrow> Inl e
      | Inr d1 \<Rightarrow>
          (case scan_marker ''REFLECTANCE_ADD_'' l d1 of
             Inl e \<Rightarrow> Inl e
           | Inr d2 \<Rightarrow> scan_marker ''SUN_ELEVATION'' l d2))"

fun scan_lines :: "string list \<Rightarrow> table \<Rightarrow> py_error + table" where
  "scan_lines [] d = Inr d"
| "scan_lines (l # ls) d =
     (case scan_line l d of
        Inl e \<Rightarrow> Inl e
      | Inr d' \<Rightarrow> scan_lines ls d')"

definition key_message :: "string \<times> pyfloat \<Rightarrow> action" where
  "key_message kv = Message (''Key:'' @ fst kv @ ''=Value:'' @ format_f (snd kv))"

text \<open>
  \<^verbatim>\<open>get_metadata(dir, bands)\<close>: the GRASS calls made, and the exception raised or the
  dict returned.
\<close>

definition get_metadata ::
  "filesystem \<Rightarrow> string \<Rightarrow> string list \<Rightarrow> action list \<times> (py_error + table)" where
  "get_metadata fs dir bands =
     (let mtl_file = basename dir @ ''_MTL.txt'';
          mtl_path = path_join dir mtl_file;
          reading = Message (''Reading metadata file: '' @ mtl_path)
      in case files fs mtl_path of
           None \<Rightarrow> ([reading], Inl IOError)
         | Some contents \<Rightarrow>
             (case scan_lines (readlines contents) [] of
                Inl e \<Rightarrow> ([reading], Inl e)
              | Inr mtl_dict \<Rightarrow> (reading # map key_message mtl_dict, Inr mtl_dict)))"

subsection \<open>\<^verbatim>\<open>dn_to_reflectance\<close>\<close>

text \<open>
  The band numbers come from \<^verbatim>\<open>options['bands'].split(',')\<close>, so a band is a
  string and \<^verbatim>\<open>str(b)\<close> is the band itself.
\<close>

definition tif_path :: "string \<Rightarrow> string \<Rightarrow> string" where
  "tif_path dir b = path_join dir (basename dir @ ''_B'' @ b @ ''.TIF'')"

definition rast_name :: "string \<Rightarrow> string \<Rightarrow> string" where
  "rast_name dir b = lower (basename dir) @ ''_b'' @ b"

definition rho_name :: "string \<Rightarrow> string \<Rightarrow> string" where
  "rho_name dir b = rast_name dir b @ ''_reflect''"

text \<open>Line 99: the expression, from the output name, the input name and the three literals.\<close>

definition mapcalc_expr :: "string \<Rightarrow> string \<Rightarrow> string \<Rightarrow> string \<Rightarrow> string \<Rightarrow> string" where
  "mapcalc_expr rho mult rast add zenith =
     rho @ '' = ('' @ mult @ ''*'' @ rast @ ''+('' @ add @ ''))/cos('' @ zenith @ '')''"

text \<open>Lines 85--91: the import of the band and the region set from it.\<close>

definition import_actions :: "string \<Rightarrow> string \<Rightarrow> action list" where
  "import_actions dir b =
     [Message (''Working on '' @ tif_path dir b @ '' ''),
      Run_command ''r.in.gdal'' [(''input'', tif_path dir b), (''output'', rast_name dir b)] True,
      Run_command ''g.region'' [(''rast'', rast_name dir b), (''flags'', ''p'')] False]"

definition lookup :: "table \<Rightarrow> string \<Rightarrow> py_error + pyfloat" where
  "lookup d k = (case map_of d k of None \<Rightarrow> Inl (KeyError k) | Some v \<Rightarrow> Inr v)"

text \<open>
  The body of the loop over the bands: the import, then the three lookups in the
  order of lines 94--96, then the expression. The result is the GRASS calls made
  and the exception raised, if any.
\<close>

definition band_body :: "string \<Rightarrow> table \<Rightarrow> string \<Rightarrow> action list \<times> py_error option" where
  "band_body dir d b =
     (case lookup d (''REFLECTANCE_MULT_BAND_'' @ b) of
        Inl e \<Rightarrow> (import_actions dir b, Some e)
      | Inr m \<Rightarrow>
          (case lookup d (''REFLECTANCE_ADD_BAND_'' @ b) of
             Inl e \<Rightarrow> (import_actions dir b, Some e)
           | Inr a \<Rightarrow>
               (case lookup d ''SUN_ELEVATION'' of
                  Inl e \<Rightarrow> (import_actions dir b, Some e)
                | Inr sun \<Rightarrow>
                    (let expr = mapcalc_expr (rho_name dir b) (format_f m) (rast_name dir b)
                                  (format_f a) (format_f (sub_from_90 sun))
                     in (import_actions dir b @
                         [Message (''Calculating expression: '' @ expr),
                          Mapcalc expr True,
                          Message (''Created reflectance raster: '' @ rho_name dir b)],
                         None)))))"

fun band_loop :: "string \<Rightarrow> table \<Rightarrow> string list \<Rightarrow> nat \<Rightarrow> action list \<times> py_error option" where
  "band_loop dir d [] cnt = ([Message (''Completed '' @ str_nat cnt @ '' reflectance rasters'')], None)"
| "band_loop dir d (b # bs) cnt =
     (case band_body dir d b of
        (acts, Some e) \<Rightarrow> (acts, Some e)
      | (acts, None) \<Rightarrow>
          (case band_loop dir d bs (cnt + 1) of
             (rest, r) \<Rightarrow> (acts @ rest, r)))"

definition dn_to_reflectance :: "string \<Rightarrow> table \<Rightarrow> string list \<Rightarrow> action list \<times> py_error option" where
  "dn_to_reflectance dir d bands = band_loop dir d bands 0"

subsection \<open>\<^verbatim>\<open>main\<close>\<close>

record options =
  opt_input :: string
  opt_bands :: string

text \<open>The body of the loop over the entries of the top directory, for the entry \<open>d\<close>.\<close>

definition scene_body ::
  "filesystem \<Rightarrow> string \<Rightarrow> string list \<Rightarrow> string \<Rightarrow> action list \<times> py_error option" where
  "scene_body fs top_dir band_list d =
     (let tile_path = path_join top_dir d
      in if isdir fs tile_path then
           (case get_metadata fs tile_path band_list of
              (acts, Inl e) \<Rightarrow> (Message (''Working in '' @ tile_path) # acts, Some e)
            | (acts, Inr metadata) \<Rightarrow>
                (case dn_to_reflectance tile_path metadata band_list of
                   (acts', r) \<Rightarrow> (Message (''Working in '' @ tile_path) # acts @ acts', r)))
         else ([], None))"

fun scene_loop ::
  "filesystem \<Rightarrow> string \<Rightarrow> string list \<Rightarrow> string list \<Rightarrow> action list \<times> py_error option" where
  "scene_loop fs top_dir band_list [] = ([], None)"
| "scene_loop fs top_dir band_list (d # ds) =
     (case scene_body fs top_dir band_list d of
        (acts, Some e) \<Rightarrow> (acts, Some e)
      | (acts, None) \<Rightarrow>
          (case scene_loop fs top_dir band_list ds of
             (rest, r) \<Rightarrow> (acts @ rest, r)))"

definition main :: "filesystem \<Rightarrow> options \<Rightarrow> action list \<times> py_error option" where
  "main fs opts =
     (let top_dir = opt_input opts;
          band_list = split CHR '','' (opt_bands opts)
      in case dirs fs top_dir of
           None \<Rightarrow> ([], Some OSError)
         | Some ds \<Rightarrow> scene_loop fs top_dir band_list ds)"


subsection \<open>The specification's reading of a metadata line\<close>

text \<open>
  A line is relevant when it contains one of the three markers anywhere in it.
\<close>

definition relevant :: "string \<Rightarrow> bool" where
  "relevant l \<longleftrightarrow>
     contains ''REFLECTANCE_MULT_'' l \<or> contains ''REFLECTANCE_ADD_'' l \<or>
     contains ''SUN_ELEVATION'' l"

text \<open>
  The specification describes the treatment of a relevant line in its own words:
  the line is split on the first \<^verbatim>\<open>=\<close> only, the left side, trimmed, is the key, and
  the whole right side is parsed as a float; a line without \<^verbatim>\<open>=\<close> is malformed.
  \<open>parse_line_first\<close> is that description, to be compared with \<open>parse_line\<close>, which
  is the script.
\<close>

definition parse_line_first :: "string \<Rightarrow> py_error + (string \<times> pyfloat)" where
  "parse_line_first l =
     (if CHR ''='' \<in> set l then
        (case py_float (tl (dropWhile (\<lambda>c. c \<noteq> CHR ''='') l)) of
           None \<Rightarrow> Inl ValueError
         | Some v \<Rightarrow> Inr (strip (takeWhile (\<lambda>c. c \<noteq> CHR ''='') l), v))
      else Inl ValueError)"

text \<open>The path of the metadata file that \<^verbatim>\<open>get_metadata\<close> opens for a scene directory.\<close>

definition mtl_path_of :: "string \<Rightarrow> string" where
  "mtl_path_of dir = path_join dir (basename dir @ ''_MTL.txt'')"

text \<open>The key of a line: what stands left of its first \<^verbatim>\<open>=\<close>, trimmed.\<close>

definition line_key :: "string \<Rightarrow> string" where
  "line_key l = strip (takeWhile (\<lambda>c. c \<noteq> CHR ''='') l)"

text \<open>The characters a decimal literal is made of.\<close>

definition literal_char :: "char \<Rightarrow> bool" where
  "literal_char c \<longleftrightarrow> is_digit c \<or> c \<in> set ''.eE+-''"

subsection \<open>Example scenes\<close>

text \<open>
  A top directory \<^verbatim>\<open>/data\<close> with one scene \<^verbatim>\<open>LC8\<close> and one plain file; the scene's
  metadata file has the given contents, or is missing.
\<close>

definition scene_fs :: "string option \<Rightarrow> filesystem" where
  "scene_fs contents =
     \<lparr>files = (\<lambda>p. if p = ''/data/LC8/LC8_MTL.txt'' then contents else None),
      dirs = [''/data'' \<mapsto> [''LC8'', ''notes.txt''], ''/data/LC8'' \<mapsto> [''LC8_MTL.txt'']]\<rparr>"


text \<open>A file that gives a key twice, and a coefficient in both notations.\<close>

definition repeated_mtl :: string where
  "repeated_mtl =
     ''REFLECTANCE_MULT_BAND_5 = 9.9\<newline>'' @
     ''REFLECTANCE_ADD_BAND_5 = -0.000012\<newline>'' @
     ''REFLECTANCE_MULT_BAND_5 = 1.2E-05\<newline>''"

text \<open>The malformed line of the specification's example scenario.\<close>

definition malformed_mtl :: string where
  "malformed_mtl =
     ''SUN_ELEVATION = 60.0\<newline>'' @
     ''REFLECTANCE_MULT_BAND_5 garbage\<newline>''"

text \<open>
  The dict of the example scenario, as \<^verbatim>\<open>get_metadata\<close> returns it for \<open>example_mtl\<close>.
\<close>

definition example_table :: table where
  "example_table =
     [(''SUN_ELEVATION'', Fin 60),
      (''REFLECTANCE_MULT_BAND_4'', to_double False (2 / 100000)),
      (''REFLECTANCE_ADD_BAND_4'', to_double True (1 / 10))]"



definition fine_sun_mtl :: string where
  "fine_sun_mtl =
     ''SUN_ELEVATION = 52.00390625\<newline>'' @
     ''REFLECTANCE_MULT_BAND_4 = 2.0E-5\<newline>'' @
     ''REFLECTANCE_ADD_BAND_4 = -0.1\<newline>''"

definition fine_sun_table :: table where
  "fine_sun_table =
     [(''SUN_ELEVATION'', Fin (13313 / 256)),
      (''REFLECTANCE_MULT_BAND_4'', to_double False (2 / 100000)),
      (''REFLECTANCE_ADD_BAND_4'', to_double True (1 / 10))]"

text \<open>The dict of the example scenario with another sun elevation.\<close>

definition sun_table :: "real \<Rightarrow> table" where
  "sun_table s =
     [(''SUN_ELEVATION'', Fin s),
      (''REFLECTANCE_MULT_BAND_4'', to_double False (2 / 100000)),
      (''REFLECTANCE_ADD_BAND_4'', to_double True (1 / 10))]"

subsection \<open>The numbers in the expression\<close>

text \<open>
  The number that a signed decimal literal denotes, with exact value: the reading
  of \<^verbatim>\<open>float\<close> before it rounds to a double.
\<close>

definition literal_real :: "string \<Rightarrow> real option" where
  "literal_real s =
     (case take_sign s of (neg, u) \<Rightarrow>
        map_option (\<lambda>q. if neg then - q else q) (decimal u))"

text \<open>A real number rounded to six decimals, as \<open>format_f\<close> writes a float of that value.\<close>

definition fixed6 :: "real \<Rightarrow> real" where
  "fixed6 x = (if x < 0 then - 1 else 1) * real (micro x) / 1000000"

subsection \<open>The raster engine's expressions\<close>

text \<open>
  Modelled from the spec: the raster engine is GRASS, outside the script. The
  specification has it evaluate a submitted expression \<^verbatim>\<open>output = f(input)\<close> pixel by
  pixel, in a syntax with \<^verbatim>\<open>+\<close>, \<^verbatim>\<open>*\<close>, \<^verbatim>\<open>/\<close>, \<^verbatim>\<open>cos(...)\<close> and numeric literals, the angle
  of the formula being in degrees. The evaluator below reads the expression text
  itself: it cuts the text into tokens, parses them with the usual precedences
  (\<^verbatim>\<open>*\<close> and \<^verbatim>\<open>/\<close> before \<^verbatim>\<open>+\<close> and \<^verbatim>\<open>-\<close>, parentheses, a minus sign in front of an operand) and
  computes the value at one pixel, given the values of the raster layers there.
  Arithmetic is that of the real numbers, a numeric literal denotes its decimal
  value, \<^verbatim>\<open>cos\<close> takes degrees as that of \<^verbatim>\<open>r.mapcalc\<close> does, and a division by zero has
  no value.
\<close>

datatype token =
    TNum real | TName string
  | TPlus | TMinus | TStar | TSlash | TLPar | TRPar | TEq

definition is_letter :: "char \<Rightarrow> bool" where
  "is_letter c \<longleftrightarrow>
     c \<in> set ''abcdefghijklmnopqrstuvwxyzABCDEFGHIJKLMNOPQRSTUVWXYZ''"

text \<open>
  A word is a longest run of letters, digits, underscores and dots. A word that
  starts with a digit or a dot is a number, any other word is a layer or function
  name.
\<close>

definition word_char :: "char \<Rightarrow> bool" where
  "word_char c \<longleftrightarrow> is_letter c \<or> is_digit c \<or> c = CHR ''_'' \<or> c = CHR ''.''"



definition is_name :: "string \<Rightarrow> bool" where
  "is_name w \<longleftrightarrow> w \<noteq> [] \<and> list_all word_char w \<and> \<not> is_digit (hd w) \<and> hd w \<noteq> CHR ''.''"









text \<open>The tokens of the text that \<open>format_f\<close> writes for a finite float.\<close>

definition literal_tokens :: "pyfloat \<Rightarrow> token list" where
  "literal_tokens v =
     (if fval v < 0 \<or> v = NZero then [TMinus] else []) @ [TNum (real (micro (fval v)) / 1000000)]"

section \<open>Properties\<close>

subsection \<open>Splitting\<close>

lemma split_from_no_sep: "sep \<notin> set s \<Longrightarrow> split_from sep acc s = [rev acc @ s]"
  by (induction s arbitrary: acc) auto

lemma split_from_first:
  "sep \<notin> set k \<Longrightarrow> split_from sep acc (k @ sep # r) = (rev acc @ k) # split_from sep [] r"
  by (induction k arbitrary: acc) auto

lemma split_from_not_Nil: "split_from sep acc s \<noteq> []"
  by (induction s arbitrary: acc) auto

lemma cut_at_first:
  "sep \<in> set s \<Longrightarrow>
   s = takeWhile (\<lambda>c. c \<noteq> sep) s @ sep # tl (dropWhile (\<lambda>c. c \<noteq> sep) s)"
  by (induction s) auto

lemma split_one_sep:
  "sep \<notin> set k \<Longrightarrow> sep \<notin> set r \<Longrightarrow> split sep (k @ sep # r) = [k, r]"
  by (simp add: split_def split_from_first split_from_no_sep)

lemma split_two_seps:
  assumes k: "sep \<notin> set k" and r: "sep \<in> set r"
  shows "\<exists>a b c cs. split sep (k @ sep # r) = a # b # c # cs"
proof -
  obtain r1 r2 where r12: "r = r1 @ sep # r2" "sep \<notin> set r1"
    using cut_at_first [OF r] by (metis set_takeWhileD)
  obtain c cs where "split_from sep [] r2 = c # cs"
    using split_from_not_Nil [of sep "[]" r2] by (cases "split_from sep [] r2") auto
  then show ?thesis
    using k r12 by (simp add: split_def split_from_first)
qed

subsection \<open>No float literal contains an equals sign\<close>

lemma in_set_dropWhile: "x \<in> set s \<Longrightarrow> \<not> P x \<Longrightarrow> x \<in> set (dropWhile P s)"
  by (induction s) auto

lemma in_set_strip: "x \<in> set s \<Longrightarrow> \<not> is_space x \<Longrightarrow> x \<in> set (strip s)"
  by (simp add: strip_def in_set_dropWhile)

lemma take_sign_set:
  "take_sign t = (neg, u) \<Longrightarrow> x \<in> set t \<Longrightarrow> x \<noteq> CHR ''-'' \<Longrightarrow> x \<noteq> CHR ''+'' \<Longrightarrow> x \<in> set u"
  by (cases t) (auto split: if_splits)

lemma exponent_chars:
  assumes e: "exponent r = Some e" and x: "x \<in> set r"
  shows "literal_char x"
proof (cases r)
  case Nil
  with x show ?thesis by simp
next
  case (Cons c cs)
  obtain neg ds where ts: "take_sign cs = (neg, ds)" by (cases "take_sign cs")
  from e Cons ts have c: "c = CHR ''e'' \<or> c = CHR ''E''" and ds: "list_all is_digit ds"
    by (auto split: if_splits)
  from ts have "cs = ds \<or> cs = CHR ''-'' # ds \<or> cs = CHR ''+'' # ds"
    by (cases cs) (auto split: if_splits)
  with x Cons c ds show ?thesis
    by (auto simp: literal_char_def list_all_iff)
qed

lemma decimal_chars:
  assumes "decimal u = Some q" and "x \<in> set u"
  shows "literal_char x"
proof -
  let ?r1 = "dropWhile is_digit u"
  have u: "u = takeWhile is_digit u @ ?r1" by simp
  show ?thesis
  proof (cases "x \<in> set (takeWhile is_digit u)")
    case True
    then show ?thesis by (auto simp: literal_char_def dest: set_takeWhileD)
  next
    case False
    with assms(2) u have x1: "x \<in> set ?r1" by (metis Un_iff set_append)
    show ?thesis
    proof (cases "prefix ''.'' ?r1")
      case True
      then obtain t where t: "?r1 = CHR ''.'' # t" by (auto simp: prefix_def)
      from assms(1) True t obtain e where e: "exponent (dropWhile is_digit t) = Some e"
        by (auto simp: decimal_def Let_def split: if_splits option.splits)
      have "t = takeWhile is_digit t @ dropWhile is_digit t" by simp
      then have "x = CHR ''.'' \<or> x \<in> set (takeWhile is_digit t) \<or> x \<in> set (dropWhile is_digit t)"
        using x1 t by (metis Un_iff set_ConsD set_append)
      then show ?thesis
        using exponent_chars [OF e] by (auto simp: literal_char_def dest: set_takeWhileD)
    next
      case False
      with assms(1) obtain e where "exponent ?r1 = Some e"
        by (auto simp: decimal_def Let_def split: if_splits option.splits)
      then show ?thesis using x1 by (rule exponent_chars)
    qed
  qed
qed

lemma py_float_no_eq: "py_float s = Some v \<Longrightarrow> CHR ''='' \<notin> set s"
proof
  assume v: "py_float s = Some v" and "CHR ''='' \<in> set s"
  then have st: "CHR ''='' \<in> set (strip s)"
    by (simp add: in_set_strip is_space_def)
  obtain neg u where ts: "take_sign (strip s) = (neg, u)" by (cases "take_sign (strip s)")
  have u: "CHR ''='' \<in> set u" using take_sign_set [OF ts st] by simp
  then have "lower_char CHR ''='' \<in> set (lower u)" unfolding lower_def by (simp add: image_iff) blast
  then have l: "CHR ''='' \<in> set (lower u)" by (simp add: lower_char_def)
  have "lower u \<noteq> ''inf''" "lower u \<noteq> ''infinity''" "lower u \<noteq> ''nan''"
    using l by auto
  with v ts obtain q where "decimal u = Some q"
    by (auto simp: py_float_def split: option.splits)
  from decimal_chars [OF this u] show False
    by (simp add: literal_char_def is_digit_def)
qed

subsection \<open>The script's line parser against the specification's\<close>

lemma parse_line_eq_first: "parse_line l = parse_line_first l"
proof (cases "CHR ''='' \<in> set l")
  case False
  then show ?thesis
    by (simp add: parse_line_def parse_line_first_def split_def split_from_no_sep)
next
  case True
  let ?k = "takeWhile (\<lambda>c. c \<noteq> CHR ''='') l" and ?r = "tl (dropWhile (\<lambda>c. c \<noteq> CHR ''='') l)"
  have l: "l = ?k @ CHR ''='' # ?r" using cut_at_first [OF True] .
  have k: "CHR ''='' \<notin> set ?k" by (auto dest: set_takeWhileD)
  show ?thesis
  proof (cases "CHR ''='' \<in> set ?r")
    case False
    have "split CHR ''='' l = [?k, ?r]"
      using split_one_sep [OF k False] l by simp
    then show ?thesis using True
      by (simp add: parse_line_def parse_line_first_def)
  next
    case r: True
    obtain a b c cs where "split CHR ''='' (?k @ CHR ''='' # ?r) = a # b # c # cs"
      using split_two_seps [OF k r] by blast
    then have "split CHR ''='' l = a # b # c # cs" using l by simp
    then have "parse_line l = Inl ValueError" by (simp add: parse_line_def)
    moreover have "py_float ?r = None"
      using py_float_no_eq [of ?r] r by (cases "py_float ?r") auto
    ultimately show ?thesis using True by (simp add: parse_line_first_def)
  qed
qed


subsection \<open>The bands argument of \<^verbatim>\<open>get_metadata\<close>\<close>



subsection \<open>Scanning the lines\<close>

lemma parse_line_error: "parse_line l = Inl e \<Longrightarrow> e = ValueError"
  by (auto simp: parse_line_def split: list.splits option.splits)

lemma scan_marker_error: "scan_marker marker l d = Inl e \<Longrightarrow> e = ValueError"
  by (auto simp: scan_marker_def split: if_splits sum.splits dest: parse_line_error)

lemma scan_line_error: "scan_line l d = Inl e \<Longrightarrow> e = ValueError"
  by (auto simp: scan_line_def split: sum.splits dest: scan_marker_error)

lemma scan_line_irrelevant: "\<not> relevant l \<Longrightarrow> scan_line l d = Inr d"
  by (simp add: scan_line_def scan_marker_def relevant_def)

lemma scan_line_malformed:
  "relevant l \<Longrightarrow> parse_line l = Inl e \<Longrightarrow> scan_line l d = Inl ValueError"
  by (auto simp: scan_line_def scan_marker_def relevant_def split: sum.splits
      dest: parse_line_error)

lemma scan_line_stores:
  "relevant l \<Longrightarrow> parse_line l = Inr (k, v) \<Longrightarrow>
   \<exists>d'. scan_line l d = Inr d' \<and> map_of d' = (map_of d)(k \<mapsto> v)"
  by (auto simp: scan_line_def scan_marker_def relevant_def update_conv')

lemma scan_lines_error: "scan_lines ls d = Inl e \<Longrightarrow> e = ValueError"
  by (induction ls arbitrary: d) (auto split: sum.splits dest: scan_line_error)

lemma scan_lines_malformed:
  "l \<in> set ls \<Longrightarrow> relevant l \<Longrightarrow> parse_line l = Inl e \<Longrightarrow> scan_lines ls d = Inl ValueError"
proof (induction ls arbitrary: d)
  case Nil
  then show ?case by simp
next
  case (Cons a ls)
  show ?case
  proof (cases "scan_line a d")
    case (Inl e')
    then show ?thesis by (auto dest: scan_line_error)
  next
    case (Inr d')
    have "l \<noteq> a"
      using scan_line_malformed [of l e d] Cons.prems(2,3) Inr by auto
    with Cons Inr show ?thesis by simp
  qed
qed

lemma scan_lines_append:
  "scan_lines (xs @ ys) d =
     (case scan_lines xs d of Inl e \<Rightarrow> Inl e | Inr d' \<Rightarrow> scan_lines ys d')"
  by (induction xs arbitrary: d) (auto split: sum.splits)

lemma scan_line_other_key:
  assumes "relevant l \<longrightarrow> (\<forall>v. parse_line l \<noteq> Inr (k, v))" and "scan_line l d = Inr d'"
  shows "map_of d' k = map_of d k"
proof (cases "relevant l")
  case False
  with assms(2) show ?thesis by (simp add: scan_line_irrelevant)
next
  case True
  show ?thesis
  proof (cases "parse_line l")
    case (Inl e)
    with True assms(2) show ?thesis by (simp add: scan_line_malformed)
  next
    case (Inr kv)
    obtain k' v' where kv: "kv = (k', v')" by (cases kv)
    with Inr True assms(1) have "k' \<noteq> k" by auto
    moreover obtain d'' where "scan_line l d = Inr d''" "map_of d'' = (map_of d)(k' \<mapsto> v')"
      using scan_line_stores [OF True] Inr kv by blast
    ultimately show ?thesis using assms(2) by simp
  qed
qed

lemma scan_lines_other_keys:
  "\<forall>l\<in>set ls. relevant l \<longrightarrow> (\<forall>v. parse_line l \<noteq> Inr (k, v)) \<Longrightarrow>
   scan_lines ls d = Inr d' \<Longrightarrow> map_of d' k = map_of d k"
proof (induction ls arbitrary: d)
  case Nil
  then show ?case by simp
next
  case (Cons a ls)
  from Cons.prems(2) obtain d1 where a: "scan_line a d = Inr d1" and r: "scan_lines ls d1 = Inr d'"
    by (auto split: sum.splits)
  have "map_of d1 k = map_of d k"
    using scan_line_other_key [OF _ a] Cons.prems(1) by simp
  moreover have "map_of d' k = map_of d1 k"
    using Cons.IH [OF _ r] Cons.prems(1) by simp
  ultimately show ?case by simp
qed

lemma scan_lines_last_occurrence:
  assumes "scan_lines (pre @ l # post) d = Inr tbl"
    and "relevant l" and "parse_line l = Inr (k, v)"
    and "\<forall>l'\<in>set post. relevant l' \<longrightarrow> (\<forall>v'. parse_line l' \<noteq> Inr (k, v'))"
  shows "map_of tbl k = Some v"
proof -
  from assms(1) obtain d1 where d1: "scan_lines pre d = Inr d1" "scan_lines (l # post) d1 = Inr tbl"
    by (auto simp: scan_lines_append split: sum.splits)
  obtain d2 where d2: "scan_line l d1 = Inr d2" "map_of d2 = (map_of d1)(k \<mapsto> v)"
    using scan_line_stores [OF assms(2,3)] by blast
  with d1(2) have "scan_lines post d2 = Inr tbl" by simp
  from scan_lines_other_keys [OF assms(4) this] d2(2) show ?thesis by simp
qed

subsection \<open>\<^verbatim>\<open>get_metadata\<close> and the scene\<close>

lemma get_metadata_missing:
  "files fs (mtl_path_of dir) = None \<Longrightarrow>
   get_metadata fs dir bands = ([Message (''Reading metadata file: '' @ mtl_path_of dir)], Inl IOError)"
  by (simp add: get_metadata_def mtl_path_of_def)

lemma get_metadata_read:
  "files fs (mtl_path_of dir) = Some contents \<Longrightarrow>
   get_metadata fs dir bands =
     (case scan_lines (readlines contents) [] of
        Inl e \<Rightarrow> ([Message (''Reading metadata file: '' @ mtl_path_of dir)], Inl e)
      | Inr mtl_dict \<Rightarrow>
          (Message (''Reading metadata file: '' @ mtl_path_of dir) # map key_message mtl_dict,
           Inr mtl_dict))"
  by (simp add: get_metadata_def mtl_path_of_def Let_def split: sum.splits)

lemma get_metadata_table:
  assumes "get_metadata fs dir bands = (acts, Inr tbl)"
  shows "\<exists>contents. files fs (mtl_path_of dir) = Some contents \<and>
           scan_lines (readlines contents) [] = Inr tbl"
proof (cases "files fs (mtl_path_of dir)")
  case None
  with assms show ?thesis by (simp add: get_metadata_missing)
next
  case (Some contents)
  with assms show ?thesis by (auto simp: get_metadata_read split: sum.splits)
qed

lemma scene_body_metadata_error:
  "isdir fs (path_join top_dir d) \<Longrightarrow>
   get_metadata fs (path_join top_dir d) band_list = (acts, Inl e) \<Longrightarrow>
   scene_body fs top_dir band_list d =
     (Message (''Working in '' @ path_join top_dir d) # acts, Some e)"
  by (simp add: scene_body_def)

lemma scene_loop_error:
  "d \<in> set ds \<Longrightarrow> snd (scene_body fs top_dir band_list d) \<noteq> None \<Longrightarrow>
   snd (scene_loop fs top_dir band_list ds) \<noteq> None"
proof (induction ds)
  case Nil
  then show ?case by simp
next
  case (Cons a ds)
  obtain acts r where a: "scene_body fs top_dir band_list a = (acts, r)"
    by (cases "scene_body fs top_dir band_list a")
  show ?case
  proof (cases r)
    case None
    with a Cons.prems have "d \<in> set ds" by auto
    from Cons.IH [OF this Cons.prems(2)] a None show ?thesis
      by (auto split: prod.splits)
  next
    case (Some e)
    with a show ?thesis by simp
  qed
qed


lemma snd_get_metadata:
  "snd (get_metadata fs dir bands) =
     (case files fs (mtl_path_of dir) of
        None \<Rightarrow> Inl IOError
      | Some contents \<Rightarrow> scan_lines (readlines contents) [])"
  by (simp add: get_metadata_def mtl_path_of_def Let_def split: option.splits sum.splits)

lemma main_scene_error:
  assumes "dirs fs (opt_input opts) = Some ds" and "d \<in> set ds"
    and "snd (scene_body fs (opt_input opts) (split CHR '','' (opt_bands opts)) d) \<noteq> None"
  shows "snd (main fs opts) \<noteq> None"
  using assms scene_loop_error [OF assms(2,3)] by (simp add: main_def Let_def)

lemma parse_line_key: "parse_line l = Inr (k, v) \<Longrightarrow> k = line_key l"
  by (auto simp: parse_line_eq_first parse_line_first_def line_key_def
      split: if_splits option.splits)

lemma parse_line_at_first:
  assumes "CHR ''='' \<notin> set left"
  shows "parse_line (left @ ''='' @ right) =
     (case py_float right of None \<Rightarrow> Inl ValueError | Some v \<Rightarrow> Inr (strip left, v))"
proof -
  have all: "\<forall>c\<in>set left. c \<noteq> CHR ''=''" using assms by auto
  have tw: "takeWhile (\<lambda>c. c \<noteq> CHR ''='') (left @ CHR ''='' # right) = left"
    using all by (simp add: takeWhile_append2)
  have dw: "dropWhile (\<lambda>c. c \<noteq> CHR ''='') (left @ CHR ''='' # right) = CHR ''='' # right"
    using all by (simp add: dropWhile_append2)
  show ?thesis
    by (simp add: parse_line_eq_first parse_line_first_def tw dw split: option.splits)
qed

lemma parse_line_malformed:
  assumes "CHR ''='' \<notin> set l \<or> py_float (tl (dropWhile (\<lambda>c. c \<noteq> CHR ''='') l)) = None"
  shows "parse_line l = Inl ValueError"
  using assms by (auto simp: parse_line_eq_first parse_line_first_def)

subsection \<open>Evaluation on concrete inputs\<close>

lemmas path_eval = mtl_path_of_def path_join_def basename_def suffix_to_prefix
lemmas float_eval = py_float_def strip_def is_space_def decimal_def is_digit_def digits_val_def
  digit_val_def scale10_def lower_def lower_char_def Let_def

subsection \<open>Fatal errors of the metadata stage\<close>

text \<open>
  C5. When the metadata file \<^verbatim>\<open><scene>_MTL.txt\<close> does not exist in the scene
  directory, \<^verbatim>\<open>get_metadata\<close> raises \<^verbatim>\<open>IOError\<close> after its one log line; processing
  the scene makes two log calls and no other GRASS call, so \<^verbatim>\<open>dn_to_reflectance\<close>
  never runs, nothing is imported and no expression is submitted for any band; and
  the whole run ends with an exception.
\<close>

theorem missing_metadata_file_is_fatal:
  assumes "files fs (mtl_path_of dir) = None"
  shows "get_metadata fs dir bands =
           ([Message (''Reading metadata file: '' @ mtl_path_of dir)], Inl IOError) \<and>
         (path_join top_dir d = dir \<and> isdir fs dir \<longrightarrow>
            scene_body fs top_dir bands d =
              ([Message (''Working in '' @ dir),
                Message (''Reading metadata file: '' @ mtl_path_of dir)], Some IOError)) \<and>
         (path_join (opt_input opts) d = dir \<and> isdir fs dir \<and>
          dirs fs (opt_input opts) = Some ds \<and> d \<in> set ds \<longrightarrow>
            snd (main fs opts) \<noteq> None)"
proof -
  have g: "get_metadata fs dir bs =
             ([Message (''Reading metadata file: '' @ mtl_path_of dir)], Inl IOError)" for bs
    using assms by (rule get_metadata_missing)
  have s: "scene_body fs t bs d =
             ([Message (''Working in '' @ dir),
               Message (''Reading metadata file: '' @ mtl_path_of dir)], Some IOError)"
    if "path_join t d = dir" "isdir fs dir" for t bs
    using that g [of bs] scene_body_metadata_error [of fs t d bs] by simp
  have "snd (main fs opts) \<noteq> None"
    if "path_join (opt_input opts) d = dir" "isdir fs dir"
       "dirs fs (opt_input opts) = Some ds" "d \<in> set ds"
    using main_scene_error [OF that(3,4)] s [OF that(1,2)] by simp
  with g s show ?thesis by blast
qed

theorem missing_metadata_file_witness:
  "get_metadata (scene_fs None) ''/data/LC8'' [''4''] =
     ([Message ''Reading metadata file: /data/LC8/LC8_MTL.txt''], Inl IOError) \<and>
   scene_body (scene_fs None) ''/data'' [''4''] ''LC8'' =
     ([Message ''Working in /data/LC8'',
       Message ''Reading metadata file: /data/LC8/LC8_MTL.txt''], Some IOError) \<and>
   snd (main (scene_fs None) \<lparr>opt_input = ''/data'', opt_bands = ''4''\<rparr>) \<noteq> None"
proof -
  have h: "files (scene_fs None) (mtl_path_of ''/data/LC8'') = None"
    by (simp add: scene_fs_def)
  show ?thesis
    using missing_metadata_file_is_fatal [OF h, of "[''4'']" "''/data''" "''LC8''"
        "\<lparr>opt_input = ''/data'', opt_bands = ''4''\<rparr>" "[''LC8'', ''notes.txt'']"]
    by (simp add: scene_fs_def path_eval isdir_def)
qed


text \<open>
  C3. When a line of the metadata file contains a marker and has no \<^verbatim>\<open>=\<close>, or its
  right side is not a float literal, \<^verbatim>\<open>get_metadata\<close> raises \<^verbatim>\<open>ValueError\<close> and returns
  no dict; processing the scene makes two log calls and no other GRASS call, so the
  error comes before any import or computation for the scene; and the whole run
  ends with an exception.
\<close>

theorem malformed_marker_line_is_fatal:
  assumes "files fs (mtl_path_of dir) = Some contents"
    and "l \<in> set (readlines contents)"
    and "relevant l"
    and "CHR ''='' \<notin> set l \<or> py_float (tl (dropWhile (\<lambda>c. c \<noteq> CHR ''='') l)) = None"
  shows "get_metadata fs dir bands =
           ([Message (''Reading metadata file: '' @ mtl_path_of dir)], Inl ValueError) \<and>
         (path_join top_dir d = dir \<and> isdir fs dir \<longrightarrow>
            scene_body fs top_dir bands d =
              ([Message (''Working in '' @ dir),
                Message (''Reading metadata file: '' @ mtl_path_of dir)], Some ValueError)) \<and>
         (path_join (opt_input opts) d = dir \<and> isdir fs dir \<and>
          dirs fs (opt_input opts) = Some ds \<and> d \<in> set ds \<longrightarrow>
            snd (main fs opts) \<noteq> None)"
proof -
  have "parse_line l = Inl ValueError"
    using assms(4) by (rule parse_line_malformed)
  then have "scan_lines (readlines contents) [] = Inl ValueError"
    using scan_lines_malformed [OF assms(2,3)] by simp
  then have g: "get_metadata fs dir bs =
             ([Message (''Reading metadata file: '' @ mtl_path_of dir)], Inl ValueError)" for bs
    using assms(1) by (simp add: get_metadata_read)
  have s: "scene_body fs t bs d =
             ([Message (''Working in '' @ dir),
               Message (''Reading metadata file: '' @ mtl_path_of dir)], Some ValueError)"
    if "path_join t d = dir" "isdir fs dir" for t bs
    using that g [of bs] scene_body_metadata_error [of fs t d bs] by simp
  have "snd (main fs opts) \<noteq> None"
    if "path_join (opt_input opts) d = dir" "isdir fs dir"
       "dirs fs (opt_input opts) = Some ds" "d \<in> set ds"
    using main_scene_error [OF that(3,4)] s [OF that(1,2)] by simp
  with g s show ?thesis by blast
qed

theorem malformed_marker_line_witness:
  "get_metadata (scene_fs (Some malformed_mtl)) ''/data/LC8'' [''5''] =
     ([Message ''Reading metadata file: /data/LC8/LC8_MTL.txt''], Inl ValueError) \<and>
   scene_body (scene_fs (Some malformed_mtl)) ''/data'' [''5''] ''LC8'' =
     ([Message ''Working in /data/LC8'',
       Message ''Reading metadata file: /data/LC8/LC8_MTL.txt''], Some ValueError) \<and>
   snd (main (scene_fs (Some malformed_mtl)) \<lparr>opt_input = ''/data'', opt_bands = ''5''\<rparr>) \<noteq> None"
proof -
  have h1: "files (scene_fs (Some malformed_mtl)) (mtl_path_of ''/data/LC8'') = Some malformed_mtl"
    by (simp add: scene_fs_def path_eval)
  have h2: "''REFLECTANCE_MULT_BAND_5 garbage\<newline>'' \<in> set (readlines malformed_mtl)"
    by (simp add: malformed_mtl_def readlines_def)
  have h3: "relevant ''REFLECTANCE_MULT_BAND_5 garbage\<newline>''"
    by (simp add: relevant_def)
  have h4: "CHR ''='' \<notin> set ''REFLECTANCE_MULT_BAND_5 garbage\<newline>'' \<or>
            py_float (tl (dropWhile (\<lambda>c. c \<noteq> CHR ''='') ''REFLECTANCE_MULT_BAND_5 garbage\<newline>'')) = None"
    by simp
  show ?thesis
    using malformed_marker_line_is_fatal [OF h1 h2 h3 h4, of "[''5'']" "''/data''" "''LC8''"
        "\<lparr>opt_input = ''/data'', opt_bands = ''5''\<rparr>" "[''LC8'', ''notes.txt'']"]
    by (simp add: scene_fs_def path_eval isdir_def)
qed

subsection \<open>What the dict holds\<close>

text \<open>
  C7. When \<^verbatim>\<open>get_metadata\<close> returns a dict (the file is valid), every relevant line
  \<open>left = right\<close> of the file gives the dict, under its trimmed key, the float that
  \<^verbatim>\<open>float\<close> reads from the whole right side, provided no later relevant line has the
  same key (the last line with a key is the one that counts). The notation of the
  literal does not matter: \<^verbatim>\<open>1.2E-05\<close> is read as the value of \<^verbatim>\<open>0.000012\<close>.
\<close>

theorem parsed_value_is_looked_up:
  assumes "snd (get_metadata fs dir bands) = Inr tbl"
    and "files fs (mtl_path_of dir) = Some contents"
    and "readlines contents = pre @ (left @ ''='' @ right) # post"
    and "relevant (left @ ''='' @ right)"
    and "CHR ''='' \<notin> set left"
    and "\<forall>l'\<in>set post. relevant l' \<longrightarrow> line_key l' \<noteq> strip left"
  shows "\<exists>v. py_float right = Some v \<and> map_of tbl (strip left) = Some v"
proof -
  let ?l = "left @ ''='' @ right"
  have sc: "scan_lines (pre @ ?l # post) [] = Inr tbl"
    using assms(1,2,3) by (simp add: snd_get_metadata)
  have "parse_line ?l \<noteq> Inl e" for e
    using scan_lines_malformed [of ?l "pre @ ?l # post" e "[]"] assms(4) sc by auto
  then obtain v where v: "py_float right = Some v" "parse_line ?l = Inr (strip left, v)"
    using parse_line_at_first [OF assms(5), of right] parse_line_error [of ?l]
    by (cases "py_float right") auto
  have "\<forall>l'\<in>set post. relevant l' \<longrightarrow> (\<forall>v'. parse_line l' \<noteq> Inr (strip left, v'))"
    using assms(6) by (metis parse_line_key)
  from scan_lines_last_occurrence [OF sc assms(4) v(2) this] v(1) show ?thesis by simp
qed

text \<open>
  C8. When the same trimmed key stands on two relevant lines of a valid file, and
  on no relevant line after the second, the dict maps the key to the value of the
  second line: the later assignment has overwritten the earlier one.
\<close>

theorem last_occurrence_wins:
  assumes "snd (get_metadata fs dir bands) = Inr tbl"
    and "files fs (mtl_path_of dir) = Some contents"
    and "readlines contents = pre @ l1 # mid @ l2 # post"
    and "relevant l1" and "relevant l2"
    and "line_key l1 = line_key l2"
    and "\<forall>l'\<in>set post. relevant l' \<longrightarrow> line_key l' \<noteq> line_key l2"
  shows "\<exists>v1 v2. parse_line l1 = Inr (line_key l2, v1) \<and> parse_line l2 = Inr (line_key l2, v2) \<and>
           map_of tbl (line_key l2) = Some v2"
proof -
  have sc: "scan_lines ((pre @ l1 # mid) @ l2 # post) [] = Inr tbl"
    using assms(1,2,3) by (simp add: snd_get_metadata)
  have ok: "\<exists>v. parse_line l = Inr (line_key l, v)"
    if "l \<in> set ((pre @ l1 # mid) @ l2 # post)" "relevant l" for l
  proof (cases "parse_line l")
    case (Inl e)
    from scan_lines_malformed [OF that Inl, of "[]"] sc show ?thesis by simp
  next
    case (Inr kv)
    then show ?thesis by (cases kv) (auto dest: parse_line_key)
  qed
  obtain v1 where v1: "parse_line l1 = Inr (line_key l1, v1)"
    using ok [of l1] assms(4) by auto
  obtain v2 where v2: "parse_line l2 = Inr (line_key l2, v2)"
    using ok [of l2] assms(5) by auto
  have "\<forall>l'\<in>set post. relevant l' \<longrightarrow> (\<forall>v'. parse_line l' \<noteq> Inr (line_key l2, v'))"
    using assms(7) by (metis parse_line_key)
  from scan_lines_last_occurrence [OF sc assms(5) v2 this] v1 v2 assms(6)
  show ?thesis by simp
qed


lemmas scan_eval = readlines_def scan_line_def scan_marker_def parse_line_def split_def float_eval

lemma repeated_mtl_lines:
  "readlines repeated_mtl =
     [''REFLECTANCE_MULT_BAND_5 = 9.9\<newline>'',
      ''REFLECTANCE_ADD_BAND_5 = -0.000012\<newline>'',
      ''REFLECTANCE_MULT_BAND_5 = 1.2E-05\<newline>'']"
  by (simp add: repeated_mtl_def readlines_def)

lemma repeated_mtl_table:
  "scan_lines (readlines repeated_mtl) [] =
     Inr [(''REFLECTANCE_MULT_BAND_5'', to_double False (12 / 1000000)),
          (''REFLECTANCE_ADD_BAND_5'', to_double True (12 / 1000000))]"
  unfolding repeated_mtl_lines by (simp add: scan_eval)

theorem parsed_value_witness:
  "snd (get_metadata (scene_fs (Some repeated_mtl)) ''/data/LC8'' [''5'']) =
     Inr [(''REFLECTANCE_MULT_BAND_5'', to_double False (12 / 1000000)),
          (''REFLECTANCE_ADD_BAND_5'', to_double True (12 / 1000000))] \<and>
   (\<exists>v. py_float '' 1.2E-05\<newline>'' = Some v \<and>
        map_of [(''REFLECTANCE_MULT_BAND_5'', to_double False (12 / 1000000)),
                (''REFLECTANCE_ADD_BAND_5'', to_double True (12 / 1000000))]
          ''REFLECTANCE_MULT_BAND_5'' = Some v) \<and>
   py_float '' 1.2E-05\<newline>'' = py_float ''0.000012''"
proof -
  let ?fs = "scene_fs (Some repeated_mtl)"
  let ?tbl = "[(''REFLECTANCE_MULT_BAND_5'', to_double False (12 / 1000000)),
               (''REFLECTANCE_ADD_BAND_5'', to_double True (12 / 1000000))]"
  have h2: "files ?fs (mtl_path_of ''/data/LC8'') = Some repeated_mtl"
    by (simp add: scene_fs_def path_eval)
  have h1: "snd (get_metadata ?fs ''/data/LC8'' [''5'']) = Inr ?tbl"
    by (simp only: snd_get_metadata h2 option.case repeated_mtl_table)
  have h3: "readlines repeated_mtl =
      [''REFLECTANCE_MULT_BAND_5 = 9.9\<newline>'', ''REFLECTANCE_ADD_BAND_5 = -0.000012\<newline>''] @
      (''REFLECTANCE_MULT_BAND_5 '' @ ''='' @ '' 1.2E-05\<newline>'') # []"
    by (simp add: repeated_mtl_lines)
  have h4: "relevant (''REFLECTANCE_MULT_BAND_5 '' @ ''='' @ '' 1.2E-05\<newline>'')"
    by (simp add: relevant_def)
  have h5: "CHR ''='' \<notin> set ''REFLECTANCE_MULT_BAND_5 ''"
    by simp
  have h6: "\<forall>l'\<in>set []. relevant l' \<longrightarrow> line_key l' \<noteq> strip ''REFLECTANCE_MULT_BAND_5 ''"
    by simp
  have n: "py_float '' 1.2E-05\<newline>'' = py_float ''0.000012''"
    by (simp add: float_eval)
  have k: "strip ''REFLECTANCE_MULT_BAND_5 '' = ''REFLECTANCE_MULT_BAND_5''"
    by (simp add: strip_def is_space_def)
  from parsed_value_is_looked_up [OF h1 h2 h3 h4 h5 h6] h1 n show ?thesis
    unfolding k by blast
qed

theorem last_occurrence_witness:
  "snd (get_metadata (scene_fs (Some repeated_mtl)) ''/data/LC8'' [''5'']) =
     Inr [(''REFLECTANCE_MULT_BAND_5'', to_double False (12 / 1000000)),
          (''REFLECTANCE_ADD_BAND_5'', to_double True (12 / 1000000))] \<and>
   (\<exists>v1 v2. parse_line ''REFLECTANCE_MULT_BAND_5 = 9.9\<newline>'' = Inr (''REFLECTANCE_MULT_BAND_5'', v1) \<and>
      parse_line ''REFLECTANCE_MULT_BAND_5 = 1.2E-05\<newline>'' = Inr (''REFLECTANCE_MULT_BAND_5'', v2) \<and>
      map_of [(''REFLECTANCE_MULT_BAND_5'', to_double False (12 / 1000000)),
              (''REFLECTANCE_ADD_BAND_5'', to_double True (12 / 1000000))]
        ''REFLECTANCE_MULT_BAND_5'' = Some v2) \<and>
   parse_line ''REFLECTANCE_MULT_BAND_5 = 9.9\<newline>'' = Inr (''REFLECTANCE_MULT_BAND_5'', to_double False (99 / 10))"
proof -
  let ?fs = "scene_fs (Some repeated_mtl)"
  let ?tbl = "[(''REFLECTANCE_MULT_BAND_5'', to_double False (12 / 1000000)),
               (''REFLECTANCE_ADD_BAND_5'', to_double True (12 / 1000000))]"
  let ?l1 = "''REFLECTANCE_MULT_BAND_5 = 9.9\<newline>''"
  let ?l2 = "''REFLECTANCE_MULT_BAND_5 = 1.2E-05\<newline>''"
  have h2: "files ?fs (mtl_path_of ''/data/LC8'') = Some repeated_mtl"
    by (simp add: scene_fs_def path_eval)
  have h1: "snd (get_metadata ?fs ''/data/LC8'' [''5'']) = Inr ?tbl"
    by (simp only: snd_get_metadata h2 option.case repeated_mtl_table)
  have h3: "readlines repeated_mtl =
      [] @ ?l1 # [''REFLECTANCE_ADD_BAND_5 = -0.000012\<newline>''] @ ?l2 # []"
    by (simp add: repeated_mtl_lines)
  have h4: "relevant ?l1" and h5: "relevant ?l2"
    by (simp_all add: relevant_def)
  have k: "line_key ?l1 = ''REFLECTANCE_MULT_BAND_5''" "line_key ?l2 = ''REFLECTANCE_MULT_BAND_5''"
    by (simp_all add: line_key_def strip_def is_space_def)
  have h6: "line_key ?l1 = line_key ?l2"
    by (simp only: k)
  have h7: "\<forall>l'\<in>set []. relevant l' \<longrightarrow> line_key l' \<noteq> line_key ?l2"
    by simp
  have p: "parse_line ?l1 = Inr (''REFLECTANCE_MULT_BAND_5'', to_double False (99 / 10))"
    by (simp add: scan_eval)
  from last_occurrence_wins [OF h1 h2 h3 h4 h5 h6 h7] h1 p show ?thesis
    unfolding k by blast
qed

subsection \<open>One band\<close>

lemma basename_no_slash: "CHR ''/'' \<notin> set (basename p)"
  by (auto simp: basename_def dest: set_takeWhileD)

lemma tif_path_inside:
  "tif_path dir b =
     (if dir = [] \<or> suffix ''/'' dir then dir else dir @ ''/'') @
     basename dir @ ''_B'' @ b @ ''.TIF''"
proof -
  have "\<not> prefix ''/'' (basename dir @ ''_B'' @ b @ ''.TIF'')"
    using basename_no_slash [of dir] by (cases "basename dir") auto
  then show ?thesis by (simp add: tif_path_def path_join_def)
qed

lemma band_body_cases:
  "band_body dir d b =
     (case map_of d (''REFLECTANCE_MULT_BAND_'' @ b) of
        None \<Rightarrow> (import_actions dir b, Some (KeyError (''REFLECTANCE_MULT_BAND_'' @ b)))
      | Some m \<Rightarrow>
          (case map_of d (''REFLECTANCE_ADD_BAND_'' @ b) of
             None \<Rightarrow> (import_actions dir b, Some (KeyError (''REFLECTANCE_ADD_BAND_'' @ b)))
           | Some a \<Rightarrow>
               (case map_of d ''SUN_ELEVATION'' of
                  None \<Rightarrow> (import_actions dir b, Some (KeyError ''SUN_ELEVATION''))
                | Some sun \<Rightarrow>
                    (import_actions dir b @
                     [Message (''Calculating expression: '' @
                        mapcalc_expr (rho_name dir b) (format_f m) (rast_name dir b)
                          (format_f a) (format_f (sub_from_90 sun))),
                      Mapcalc (mapcalc_expr (rho_name dir b) (format_f m) (rast_name dir b)
                          (format_f a) (format_f (sub_from_90 sun))) True,
                      Message (''Created reflectance raster: '' @ rho_name dir b)],
                     None))))"
  by (simp add: band_body_def lookup_def Let_def split: option.splits)

lemma band_body_complete:
  "map_of d (''REFLECTANCE_MULT_BAND_'' @ b) = Some m \<Longrightarrow>
   map_of d (''REFLECTANCE_ADD_BAND_'' @ b) = Some a \<Longrightarrow>
   map_of d ''SUN_ELEVATION'' = Some sun \<Longrightarrow>
   band_body dir d b =
     (import_actions dir b @
      [Message (''Calculating expression: '' @
         mapcalc_expr (rho_name dir b) (format_f m) (rast_name dir b)
           (format_f a) (format_f (sub_from_90 sun))),
       Mapcalc (mapcalc_expr (rho_name dir b) (format_f m) (rast_name dir b)
           (format_f a) (format_f (sub_from_90 sun))) True,
       Message (''Created reflectance raster: '' @ rho_name dir b)],
      None)"
  by (simp add: band_body_cases)

lemma band_body_start: "take 3 (fst (band_body dir d b)) = import_actions dir b"
  by (simp add: band_body_cases import_actions_def split: option.splits)

lemma band_body_key_error: "snd (band_body dir d b) = Some e \<Longrightarrow> \<exists>k. e = KeyError k"
  by (auto simp: band_body_cases split: option.splits)

lemma band_body_missing:
  "map_of d (''REFLECTANCE_MULT_BAND_'' @ b) = None \<or> map_of d (''REFLECTANCE_ADD_BAND_'' @ b) = None \<Longrightarrow>
   band_body dir d b =
     (import_actions dir b,
      Some (KeyError (if map_of d (''REFLECTANCE_MULT_BAND_'' @ b) = None
                      then ''REFLECTANCE_MULT_BAND_'' @ b else ''REFLECTANCE_ADD_BAND_'' @ b)))"
  by (auto simp: band_body_cases split: option.splits)

lemma import_actions_no_mapcalc: "Mapcalc e ow \<notin> set (import_actions dir b)"
  by (simp add: import_actions_def)

lemma band_body_mapcalc:
  assumes "Mapcalc e ow \<in> set (fst (band_body dir d b))"
  shows "\<exists>m a sun. map_of d (''REFLECTANCE_MULT_BAND_'' @ b) = Some m \<and>
           map_of d (''REFLECTANCE_ADD_BAND_'' @ b) = Some a \<and>
           map_of d ''SUN_ELEVATION'' = Some sun \<and> ow \<and>
           e = mapcalc_expr (rho_name dir b) (format_f m) (rast_name dir b)
                 (format_f a) (format_f (sub_from_90 sun))"
  using assms
  by (auto simp: band_body_cases import_actions_def split: option.splits)

subsection \<open>The loop over the bands\<close>

lemma band_loop_actions:
  "x \<in> set (fst (band_loop dir d bs cnt)) \<Longrightarrow>
   (\<exists>b\<in>set bs. x \<in> set (fst (band_body dir d b))) \<or> (\<exists>s. x = Message s)"
proof (induction bs arbitrary: cnt)
  case Nil
  then show ?case by simp
next
  case (Cons b bs)
  obtain acts r where b: "band_body dir d b = (acts, r)" by (cases "band_body dir d b")
  show ?case
  proof (cases r)
    case (Some e)
    with b Cons.prems show ?thesis by auto
  next
    case None
    obtain rest r' where l: "band_loop dir d bs (cnt + 1) = (rest, r')"
      by (cases "band_loop dir d bs (cnt + 1)")
    with b None Cons.prems have "x \<in> set acts \<or> x \<in> set rest" by auto
    then show ?thesis
    proof
      assume "x \<in> set acts"
      with b show ?thesis by auto
    next
      assume "x \<in> set rest"
      with l Cons.IH [of "cnt + 1"] show ?thesis by auto
    qed
  qed
qed

lemma band_loop_failure:
  "b \<in> set bs \<Longrightarrow> snd (band_body dir d b) \<noteq> None \<Longrightarrow>
   \<exists>k. snd (band_loop dir d bs cnt) = Some (KeyError k)"
proof (induction bs arbitrary: cnt)
  case Nil
  then show ?case by simp
next
  case (Cons a bs)
  obtain acts r where a: "band_body dir d a = (acts, r)" by (cases "band_body dir d a")
  show ?case
  proof (cases r)
    case (Some e)
    with a band_body_key_error [of dir d a e] show ?thesis by auto
  next
    case None
    with a Cons.prems have "b \<in> set bs" by auto
    from Cons.IH [OF this Cons.prems(2), of "cnt + 1"] a None show ?thesis
      by (auto split: prod.splits)
  qed
qed

lemma band_loop_success:
  "\<forall>b\<in>set bs. snd (band_body dir d b) = None \<Longrightarrow>
   band_loop dir d bs cnt =
     (concat (map (\<lambda>b. fst (band_body dir d b)) bs) @
      [Message (''Completed '' @ str_nat (cnt + length bs) @ '' reflectance rasters'')], None)"
proof (induction bs arbitrary: cnt)
  case Nil
  then show ?case by simp
next
  case (Cons a bs)
  obtain acts where a: "band_body dir d a = (acts, None)"
    using Cons.prems by (cases "band_body dir d a") auto
  from Cons.IH [of "cnt + 1"] Cons.prems a show ?case by simp
qed


lemma band_loop_all_complete:
  assumes "snd (band_loop dir d bs cnt) = None" and "b \<in> set bs"
  shows "snd (band_body dir d b) = None"
proof (rule ccontr)
  assume "snd (band_body dir d b) \<noteq> None"
  from band_loop_failure [OF assms(2) this, of cnt] assms(1) show False by auto
qed

subsection \<open>Rounding to a double\<close>

lemma round_half_even_near:
  "\<bar>real_of_int (round_half_even y) - y\<bar> \<le> 1 / 2"
proof -
  have "real_of_int \<lfloor>y\<rfloor> \<le> y" "y < real_of_int \<lfloor>y\<rfloor> + 1" by linarith+
  then show ?thesis
    by (auto simp: round_half_even_def Let_def)
qed

lemma round_half_even_nonneg: "0 \<le> y \<Longrightarrow> 0 \<le> round_half_even y"
  by (auto simp: round_half_even_def Let_def intro: add_nonneg_nonneg)

lemma round_half_even_of_int: "round_half_even (real_of_int j) = j"
  by (simp add: round_half_even_def)

lemma round_half_even_between:
  assumes "real_of_int j - 1 / 2 < y" and "y < real_of_int j + 1 / 2"
  shows "round_half_even y = j"
proof -
  have "\<lfloor>y\<rfloor> = j - 1 \<or> \<lfloor>y\<rfloor> = j"
    using assms by (simp add: floor_eq_iff) linarith
  then show ?thesis
  proof
    assume f: "\<lfloor>y\<rfloor> = j - 1"
    then have "1 / 2 < y - real_of_int \<lfloor>y\<rfloor>" using assms by simp
    then show ?thesis using f by (simp add: round_half_even_def Let_def)
  next
    assume f: "\<lfloor>y\<rfloor> = j"
    then have "y - real_of_int \<lfloor>y\<rfloor> < 1 / 2" using assms by simp
    then show ?thesis using f by (simp add: round_half_even_def Let_def)
  qed
qed

lemma binade_from_range: "e - int n \<le> binade_from n e x \<and> binade_from n e x \<le> e"
proof (induction n arbitrary: e)
  case 0
  then show ?case by simp
next
  case (Suc n)
  from Suc [of "e - 1"] show ?case by auto
qed

lemma binade_from_upper:
  "x < 2 powi (e + 1) \<Longrightarrow> x < 2 powi (binade_from n e x + 1)"
proof (induction n arbitrary: e)
  case 0
  then show ?case by simp
next
  case (Suc n)
  show ?case
  proof (cases "2 powi e \<le> x")
    case True
    with Suc.prems show ?thesis by simp
  next
    case False
    then have "x < 2 powi (e - 1 + 1)" by simp
    from Suc.IH [OF this] False show ?thesis by simp
  qed
qed

lemma binade_from_lower:
  "2 powi (binade_from n e x) \<le> x \<or> binade_from n e x = e - int n"
proof (induction n arbitrary: e)
  case 0
  then show ?case by simp
next
  case (Suc n)
  from Suc [of "e - 1"] show ?case by auto
qed

lemma binade_range: "- 1022 \<le> binade x" "binade x \<le> 1023"
  using binade_from_range [of 1023 2045 x] by (simp_all add: binade_def)

lemma binade_lower: "2 powi (- 1022) \<le> x \<Longrightarrow> 2 powi (binade x) \<le> x"
  using binade_from_lower [of 2045 1023 x] by (auto simp: binade_def)

lemma binade_subnormal: "x < 2 powi (- 1022) \<Longrightarrow> binade x = - 1022"
proof -
  assume x: "x < 2 powi (- 1022)"
  have "(2::real) powi (- 1022) \<le> 2 powi (binade x)"
    using binade_range(1) [of x] by (intro power_int_increasing) simp_all
  with x have "\<not> 2 powi (binade x) \<le> x" by simp
  then show ?thesis
    using binade_from_lower [of 2045 1023 x] by (simp add: binade_def)
qed

lemma binade_upper: "x < 2 powi 1024 \<Longrightarrow> x < 2 powi (binade x + 1)"
  using binade_from_upper [of x 1023 2045] by (simp add: binade_def)


lemma two_powi_pos: "0 < (2::real) powi e"
  by simp

lemma round_mag_near:
  assumes "0 \<le> x" and "x < 2 powi 1023"
  shows "\<exists>r. round_mag x = Some r \<and> 0 \<le> r \<and> \<bar>r - x\<bar> \<le> 2 powi (binade x - 53)"
proof -
  define e where "e = binade x - 52"
  define q where "q = round_half_even (x / 2 powi e)"
  define r where "r = real_of_int q * 2 powi e"
  have pe: "0 < (2::real) powi e" by simp
  have "0 \<le> x / 2 powi e" using assms(1) pe by simp
  then have q0: "0 \<le> q" unfolding q_def by (rule round_half_even_nonneg)
  then have r0: "0 \<le> r" unfolding r_def using pe by simp
  have "\<bar>real_of_int q - x / 2 powi e\<bar> \<le> 1 / 2"
    unfolding q_def by (rule round_half_even_near)
  then have "\<bar>real_of_int q - x / 2 powi e\<bar> * 2 powi e \<le> 1 / 2 * 2 powi e"
    using pe by (intro mult_right_mono) simp_all
  moreover have "\<bar>real_of_int q - x / 2 powi e\<bar> * 2 powi e = \<bar>r - x\<bar>"
  proof -
    have "\<bar>real_of_int q - x / 2 powi e\<bar> * 2 powi e = \<bar>(real_of_int q - x / 2 powi e) * 2 powi e\<bar>"
      using pe by (simp add: abs_mult)
    also have "(real_of_int q - x / 2 powi e) * 2 powi e = r - x"
      using pe by (simp add: r_def field_simps)
    finally show ?thesis .
  qed
  moreover have "1 / 2 * (2::real) powi e = 2 powi (binade x - 53)"
  proof -
    have "(2::real) powi e = 2 powi ((binade x - 53) + 1)" by (simp add: e_def)
    also have "\<dots> = 2 powi (binade x - 53) * 2" by (rule power_int_add_1) simp
    finally show ?thesis by simp
  qed
  ultimately have near: "\<bar>r - x\<bar> \<le> 2 powi (binade x - 53)" by simp
  have "(2::real) powi (binade x - 53) \<le> 2 powi 970"
    using binade_range(2) [of x] by (intro power_int_increasing) simp_all
  with near have "r \<le> x + 2 powi 970" by (simp add: abs_le_iff)
  also have "\<dots> < 2 powi 1023 + 2 powi 970" using assms(2) by simp
  also have "\<dots> \<le> (2::real) powi 1024" by simp
  finally have "\<not> 2 powi 1024 \<le> r" by simp
  then have "round_mag x = Some r"
    by (simp add: round_mag_def Let_def e_def [symmetric] q_def [symmetric] r_def [symmetric])
  with r0 near show ?thesis by blast
qed

lemma powi_shift_53: "(2::real) powi (b - 53) = 2 powi b / 2 ^ 53"
proof -
  have "(2::real) powi (b - 53) = 2 powi b / 2 powi 53"
    by (rule power_int_diff) simp
  then show ?thesis by simp
qed

lemma round_mag_relative:
  assumes "2 powi (- 1022) \<le> x" and "x < 2 powi 1023"
  shows "\<exists>r. round_mag x = Some r \<and> 0 < r \<and> \<bar>r - x\<bar> \<le> x / 2 ^ 53"
proof -
  have x0: "0 < x" using assms(1) two_powi_pos [of "- 1022"] by linarith
  then obtain r where r: "round_mag x = Some r" "\<bar>r - x\<bar> \<le> 2 powi (binade x - 53)"
    using round_mag_near [of x] assms(2) by auto
  have "2 powi (binade x) \<le> x" using assms(1) by (rule binade_lower)
  then have "2 powi (binade x - 53) \<le> x / 2 ^ 53"
    by (simp add: powi_shift_53 divide_right_mono)
  with r(2) have near: "\<bar>r - x\<bar> \<le> x / 2 ^ 53" by simp
  have "x / 2 ^ 53 < x" using x0 by (simp add: field_simps)
  with near have "0 < r" by linarith
  with r(1) near show ?thesis by blast
qed

lemma round_mag_absolute:
  assumes "0 \<le> x" and "x < 2 powi 1023"
  shows "\<exists>r. round_mag x = Some r \<and> 0 \<le> r \<and> \<bar>r - x\<bar> \<le> x / 2 ^ 53 + 2 powi (- 1075)"
proof (cases "2 powi (- 1022) \<le> x")
  case True
  from round_mag_relative [OF True assms(2)] obtain r
    where "round_mag x = Some r" "0 < r" "\<bar>r - x\<bar> \<le> x / 2 ^ 53" by blast
  moreover have "0 \<le> (2::real) powi (- 1075)" by simp
  ultimately show ?thesis by (intro exI [of _ r]) linarith
next
  case False
  then have "binade x = - 1022" by (simp add: binade_subnormal)
  with round_mag_near [OF assms] obtain r
    where "round_mag x = Some r" "0 \<le> r" "\<bar>r - x\<bar> \<le> 2 powi (- 1075)" by auto
  moreover have "0 \<le> x / 2 ^ 53" using assms(1) by simp
  ultimately show ?thesis by (intro exI [of _ r]) linarith
qed

lemma round_mag_exact:
  assumes x: "x = real m * 2 powi k" and m: "m < 2 ^ 53" and k: "- 1074 \<le> k" "k \<le> 970"
  shows "round_mag x = Some x"
proof -
  define e where "e = binade x - 52"
  have pk: "0 < (2::real) powi k" by simp
  have xlt: "x < 2 powi (53 + k)"
  proof -
    have "real m < 2 ^ 53" using m by (metis of_nat_less_iff of_nat_numeral of_nat_power)
    then have "real m * 2 powi k < 2 ^ 53 * 2 powi k" using pk by simp
    also have "(2::real) ^ 53 * 2 powi k = 2 powi (53 + k)"
      by (simp add: power_int_add)
    finally show ?thesis using x by simp
  qed
  have ek: "e \<le> k"
  proof (cases "2 powi (- 1022) \<le> x")
    case True
    then have "2 powi (binade x) \<le> x" by (rule binade_lower)
    with xlt have lt: "(2::real) powi (binade x) < 2 powi (53 + k)" by simp
    have "binade x < 53 + k"
    proof (rule ccontr)
      assume "\<not> binade x < 53 + k"
      then have "(2::real) powi (53 + k) \<le> 2 powi (binade x)"
        by (intro power_int_increasing) simp_all
      with lt show False by simp
    qed
    then show ?thesis by (simp add: e_def)
  next
    case False
    then have "binade x = - 1022" by (simp add: binade_subnormal)
    with k(1) show ?thesis by (simp add: e_def)
  qed
  define j where "j = int m * 2 ^ nat (k - e)"
  have "(2::real) powi k = 2 powi (k - e) * 2 powi e"
    by (simp flip: power_int_add)
  also have "(2::real) powi (k - e) = 2 ^ nat (k - e)"
    using ek by (simp add: power_int_def)
  finally have split: "(2::real) powi k = 2 ^ nat (k - e) * 2 powi e" .
  have xj: "x = real_of_int j * 2 powi e"
    by (simp add: x j_def split)
  then have "x / 2 powi e = real_of_int j" by simp
  then have q: "round_half_even (x / 2 powi e) = j"
    by (simp only: round_half_even_of_int)
  have "(2::real) powi (53 + k) \<le> 2 powi 1023"
    using k(2) by (intro power_int_increasing) simp_all
  with xlt have "x < 2 powi 1024"
  proof -
    have "(2::real) powi 1023 \<le> 2 powi 1024" by simp
    with \<open>(2::real) powi (53 + k) \<le> 2 powi 1023\<close> xlt show ?thesis by linarith
  qed
  then have big: "\<not> 2 powi 1024 \<le> x" by simp
  have "real_of_int (round_half_even (x / 2 powi e)) * 2 powi e = x"
    by (simp only: q) (simp only: xj [symmetric])
  then have "round_mag x = (if 2 powi 1024 \<le> x then None else Some x)"
    by (simp only: round_mag_def Let_def e_def [symmetric])
  with big show ?thesis by (simp only: if_False)
qed

lemma to_double_exact:
  assumes "x = real m * 2 powi k" and "m < 2 ^ 53" and "- 1074 \<le> k" and "k \<le> 970"
  shows "to_double neg x = (if neg then (if x = 0 then NZero else Fin (- x)) else Fin x)"
  using round_mag_exact [OF assms] by (simp add: to_double_def)

lemma to_double_relative:
  assumes "2 powi (- 1022) \<le> x" and "x < 2 powi 1023"
  shows "\<exists>r. to_double neg x = Fin (if neg then - r else r) \<and> 0 < r \<and> \<bar>r - x\<bar> \<le> x / 2 ^ 53"
proof -
  from round_mag_relative [OF assms] obtain r
    where r: "round_mag x = Some r" "0 < r" "\<bar>r - x\<bar> \<le> x / 2 ^ 53" by blast
  then have "to_double neg x = Fin (if neg then - r else r)"
    by (simp add: to_double_def)
  with r show ?thesis by blast
qed

lemma to_double_absolute:
  assumes "0 \<le> x" and "x < 2 powi 1023"
  shows "is_finite (to_double neg x) \<and>
         \<bar>fval (to_double neg x) - (if neg then - x else x)\<bar> \<le> x / 2 ^ 53 + 2 powi (- 1075)"
proof -
  from round_mag_absolute [OF assms] obtain r
    where r: "round_mag x = Some r" "0 \<le> r" "\<bar>r - x\<bar> \<le> x / 2 ^ 53 + 2 powi (- 1075)" by blast
  have "\<bar>- r - - x\<bar> = \<bar>r - x\<bar>" by simp
  with r show ?thesis
    by (auto simp: to_double_def simp del: power_int_numeral_neg_numeral)
qed


subsection \<open>What \<open>format_f\<close> writes\<close>

lemma str_nat_small: "n < 10 \<Longrightarrow> str_nat n = [digit_char n]"
  by (simp add: str_nat.simps)

lemma str_nat_large: "10 \<le> n \<Longrightarrow> str_nat n = str_nat (n div 10) @ [digit_char (n mod 10)]"
  by (subst str_nat.simps) simp

lemmas format_eval = fixed_digits_def str_nat_small str_nat_large digit_char_def pad6_def

lemma digit_cases: "d < 10 \<Longrightarrow> d \<in> {0, 1, 2, 3, 4, 5, 6, 7, 8, 9::nat}"
  by auto

lemma digit_char_is_digit: "d < 10 \<Longrightarrow> is_digit (digit_char d)"
  using digit_cases [of d] by (auto simp: digit_char_def is_digit_def)

lemma digit_val_digit_char: "d < 10 \<Longrightarrow> digit_val (digit_char d) = d"
  using digit_cases [of d] by (auto simp: digit_char_def digit_val_def)

lemma str_nat_digits: "list_all is_digit (str_nat n)"
proof (induction n rule: str_nat.induct)
  case (1 n)
  show ?case
  proof (cases "n < 10")
    case True
    then show ?thesis by (simp add: str_nat_small digit_char_is_digit)
  next
    case False
    with 1 show ?thesis by (simp add: str_nat_large digit_char_is_digit)
  qed
qed

lemma str_nat_not_Nil: "str_nat n \<noteq> []"
  by (cases "n < 10") (simp_all add: str_nat_small str_nat_large)

lemma digits_val_snoc: "digits_val (xs @ [c]) = 10 * digits_val xs + digit_val c"
  by (simp add: digits_val_def)

lemma digits_val_str_nat: "digits_val (str_nat n) = n"
proof (induction n rule: str_nat.induct)
  case (1 n)
  show ?case
  proof (cases "n < 10")
    case True
    then show ?thesis by (simp add: str_nat_small digits_val_def digit_val_digit_char)
  next
    case False
    with 1 show ?thesis by (simp add: str_nat_large digits_val_snoc digit_val_digit_char)
  qed
qed

lemma length_str_nat: "n < 10 ^ k \<Longrightarrow> 0 < k \<Longrightarrow> length (str_nat n) \<le> k"
proof (induction n arbitrary: k rule: str_nat.induct)
  case (1 n)
  show ?case
  proof (cases "n < 10")
    case True
    with "1.prems" show ?thesis by (simp add: str_nat_small)
  next
    case False
    obtain j where k: "k = Suc j" using "1.prems"(2) by (cases k) auto
    have j: "0 < j"
    proof (cases j)
      case 0
      with k "1.prems"(1) False show ?thesis by simp
    qed simp
    have "n div 10 < 10 ^ j"
      using "1.prems"(1) k by (simp add: less_mult_imp_div_less mult.commute)
    from "1.IH" [OF False this j] False k show ?thesis by (simp add: str_nat_large)
  qed
qed

lemma digits_val_append:
  "digits_val (xs @ ys) = digits_val xs * 10 ^ length ys + digits_val ys"
proof (induction ys rule: rev_induct)
  case Nil
  then show ?case by (simp add: digits_val_def)
next
  case (snoc y ys)
  have "digits_val (xs @ ys @ [y]) = 10 * digits_val (xs @ ys) + digit_val y"
    using digits_val_snoc [of "xs @ ys" y] by simp
  with snoc show ?case by (simp add: digits_val_snoc algebra_simps)
qed

lemma digits_val_zeros: "digits_val (replicate k CHR ''0'') = 0"
proof (induction k)
  case 0
  then show ?case by (simp add: digits_val_def)
next
  case (Suc k)
  have "replicate (Suc k) CHR ''0'' = replicate k CHR ''0'' @ [CHR ''0'']"
    by (simp add: replicate_append_same)
  with Suc show ?case by (simp add: digits_val_snoc digit_val_def)
qed

lemma pad6_replicate: "pad6 s = replicate (6 - length s) CHR ''0'' @ s"
proof -
  have "''000000'' = replicate 6 CHR ''0''" by (simp add: eval_nat_numeral)
  then show ?thesis by (simp add: pad6_def)
qed

lemma pad6_str_nat:
  assumes "n < 1000000"
  shows "length (pad6 (str_nat n)) = 6" and "list_all is_digit (pad6 (str_nat n))"
    and "digits_val (pad6 (str_nat n)) = n"
proof -
  have "length (str_nat n) \<le> 6" using length_str_nat [of n 6] assms by simp
  then show "length (pad6 (str_nat n)) = 6" by (simp add: pad6_replicate)
  show "list_all is_digit (pad6 (str_nat n))"
  proof -
    have "is_digit CHR ''0''" by (simp add: is_digit_def)
    then show ?thesis
      using str_nat_digits [of n] by (auto simp: pad6_replicate list_all_iff)
  qed
  show "digits_val (pad6 (str_nat n)) = n"
    by (simp add: pad6_replicate digits_val_append digits_val_zeros digits_val_str_nat)
qed

lemma decimal_fixed:
  assumes "ip \<noteq> []" and "list_all is_digit ip" and "list_all is_digit fp"
  shows "decimal (ip @ ''.'' @ fp) =
           Some (scale10 (real (digits_val (ip @ fp))) (- int (length fp)))"
proof -
  have nd: "\<not> is_digit CHR ''.''" by (simp add: is_digit_def)
  have ipd: "\<forall>c\<in>set ip. is_digit c" and fpd: "\<forall>c\<in>set fp. is_digit c"
    using assms(2,3) by (simp_all add: list_all_iff)
  have tw: "takeWhile is_digit (ip @ CHR ''.'' # fp) = ip"
    using ipd nd by (simp add: takeWhile_append2)
  have dw: "dropWhile is_digit (ip @ CHR ''.'' # fp) = CHR ''.'' # fp"
    using ipd nd by (simp add: dropWhile_append2)
  have tf: "takeWhile is_digit fp = fp" using fpd by (simp add: takeWhile_eq_all_conv)
  have df: "dropWhile is_digit fp = []" using fpd by simp
  show ?thesis
    using assms(1) by (simp add: decimal_def Let_def tw dw tf df)
qed

lemma strip_id:
  assumes "s \<noteq> []" and "\<not> is_space (hd s)" and "\<not> is_space (last s)"
  shows "strip s = s"
proof -
  have "dropWhile is_space s = s" using assms(1,2) by (cases s) auto
  moreover have "dropWhile is_space (rev s) = rev s"
    using assms(1,3) by (cases "rev s") (auto simp: last_rev [symmetric] hd_rev)
  ultimately show ?thesis by (simp add: strip_def)
qed

lemma digit_not_space: "is_digit c \<Longrightarrow> \<not> is_space c"
  by (auto simp: is_digit_def is_space_def)

lemma digit_lower:
  assumes "is_digit c"
  shows "lower_char c = c"
proof -
  have "\<forall>c\<in>set ''0123456789''. lower_char c = c"
    by (simp add: lower_char_def)
  with assms show ?thesis by (simp only: is_digit_def)
qed



lemma fixed_digits_parts:
  fixes n :: nat
  defines "ip \<equiv> str_nat (n div 1000000)" and "fp \<equiv> pad6 (str_nat (n mod 1000000))"
  shows "fixed_digits n = ip @ ''.'' @ fp" and "ip \<noteq> []" and "list_all is_digit ip"
    and "list_all is_digit fp" and "length fp = 6" and "digits_val (ip @ fp) = n"
proof -
  have lt: "n mod 1000000 < 1000000" by simp
  show fp6: "length fp = 6" and fpd: "list_all is_digit fp"
    unfolding fp_def using pad6_str_nat [OF lt] by simp_all
  have fpv: "digits_val fp = n mod 1000000"
    unfolding fp_def using pad6_str_nat [OF lt] by simp
  show "list_all is_digit ip" and "ip \<noteq> []"
    unfolding ip_def by (simp_all add: str_nat_digits str_nat_not_Nil)
  have ipv: "digits_val ip = n div 1000000"
    unfolding ip_def by (simp add: digits_val_str_nat)
  show "fixed_digits n = ip @ ''.'' @ fp"
    by (simp add: fixed_digits_def ip_def fp_def)
  show "digits_val (ip @ fp) = n"
    by (simp add: digits_val_append fp6 ipv fpv)
qed

lemma decimal_fixed_digits: "decimal (fixed_digits n) = Some (real n / 1000000)"
  using decimal_fixed [OF fixed_digits_parts(2,3,4), of n n] fixed_digits_parts(1,5,6) [of n]
  by (simp add: scale10_def)

lemma fixed_digits_head:
  "fixed_digits n \<noteq> []" "is_digit (hd (fixed_digits n))"
proof -
  obtain c cs where ip: "str_nat (n div 1000000) = c # cs"
    using str_nat_not_Nil [of "n div 1000000"] by (cases "str_nat (n div 1000000)") auto
  with str_nat_digits [of "n div 1000000"] have "is_digit c" by simp
  with ip show "fixed_digits n \<noteq> []" "is_digit (hd (fixed_digits n))"
    by (simp_all add: fixed_digits_def)
qed

lemma take_sign_fixed_digits: "take_sign (fixed_digits n) = (False, fixed_digits n)"
proof -
  obtain c cs where f: "fixed_digits n = c # cs"
    using fixed_digits_head(1) [of n] by (cases "fixed_digits n") auto
  with fixed_digits_head(2) [of n] have "is_digit c" by simp
  then have "c \<noteq> CHR ''-''" "c \<noteq> CHR ''+''" by (auto simp: is_digit_def)
  with f show ?thesis by simp
qed

lemma micro_minus: "micro (- x) = micro x"
  by (simp add: micro_def)

lemma micro_zero: "micro 0 = 0"
  by (simp add: micro_def round_half_even_def)

lemma fixed6_zero: "fixed6 0 = 0"
  by (simp add: fixed6_def micro_zero)

lemma literal_real_format_f:
  assumes "is_finite v"
  shows "literal_real (format_f v) = Some (fixed6 (fval v))"
proof (cases v)
  case (Fin x)
  then show ?thesis
    by (simp add: literal_real_def take_sign_fixed_digits decimal_fixed_digits fixed6_def)
next
  case NZero
  then show ?thesis
    by (simp add: literal_real_def decimal_fixed_digits fixed6_zero)
qed (use assms in simp_all)

lemma fixed6_near: "\<bar>fixed6 x - x\<bar> \<le> 1 / 2000000"
proof -
  let ?y = "\<bar>x\<bar> * 1000000"
  have "0 \<le> round_half_even ?y" by (simp add: round_half_even_nonneg)
  then have m: "real (micro x) = real_of_int (round_half_even ?y)"
    by (simp add: micro_def)
  have "\<bar>real (micro x) - ?y\<bar> \<le> 1 / 2"
    unfolding m by (rule round_half_even_near)
  then have near: "\<bar>real (micro x) / 1000000 - \<bar>x\<bar>\<bar> \<le> 1 / 2000000"
    by (simp add: abs_le_iff field_simps)
  show ?thesis
  proof (cases "x < 0")
    case True
    then have "fixed6 x - x = - (real (micro x) / 1000000 - \<bar>x\<bar>)"
      by (simp add: fixed6_def)
    then have "\<bar>fixed6 x - x\<bar> = \<bar>real (micro x) / 1000000 - \<bar>x\<bar>\<bar>"
      by (simp only: abs_minus_cancel)
    with near show ?thesis by simp
  next
    case False
    then have "fixed6 x - x = real (micro x) / 1000000 - \<bar>x\<bar>"
      by (simp add: fixed6_def)
    with near show ?thesis by simp
  qed
qed

lemma micro_between:
  assumes "real j - 1 / 2 < \<bar>x\<bar> * 1000000" and "\<bar>x\<bar> * 1000000 < real j + 1 / 2"
  shows "micro x = j"
proof -
  have "round_half_even (\<bar>x\<bar> * 1000000) = int j"
    using assms by (intro round_half_even_between) simp_all
  then show ?thesis by (simp add: micro_def)
qed

lemma micro_exact: "\<bar>x\<bar> * 1000000 = real j \<Longrightarrow> micro x = j"
  by (rule micro_between) simp_all

lemma to_double_micro:
  assumes "2 powi (- 1022) \<le> x" and "x < 2 powi 1023"
    and "real j - 1 / 2 < (x - x / 2 ^ 53) * 1000000"
    and "(x + x / 2 ^ 53) * 1000000 < real j + 1 / 2"
  shows "format_f (to_double neg x) = (if neg then ''-'' else []) @ fixed_digits j"
    and "fixed6 (fval (to_double neg x)) = (if neg then - real j else real j) / 1000000"
    and "is_finite (to_double neg x)"
    and "literal_tokens (to_double neg x) =
           (if neg then [TMinus] else []) @ [TNum (real j / 1000000)]"
proof -
  from to_double_relative [OF assms(1,2), of neg] obtain r
    where r: "to_double neg x = Fin (if neg then - r else r)" "0 < r" "\<bar>r - x\<bar> \<le> x / 2 ^ 53"
    by blast
  have lo: "(x - x / 2 ^ 53) * 1000000 \<le> r * 1000000"
    and hi: "r * 1000000 \<le> (x + x / 2 ^ 53) * 1000000"
  proof -
    have "x - x / 2 ^ 53 \<le> r" "r \<le> x + x / 2 ^ 53" using r(3) by linarith+
    then show "(x - x / 2 ^ 53) * 1000000 \<le> r * 1000000"
      and "r * 1000000 \<le> (x + x / 2 ^ 53) * 1000000"
      by (simp_all only: mult_le_cancel_right) simp_all
  qed
  have "micro r = j"
    using assms(3,4) lo hi r(2) by (intro micro_between) simp_all
  then have m: "micro (if neg then - r else r) = j"
    by (simp add: micro_minus)
  show "format_f (to_double neg x) = (if neg then ''-'' else []) @ fixed_digits j"
    using r(2) m by (simp add: r(1))
  show "fixed6 (fval (to_double neg x)) = (if neg then - real j else real j) / 1000000"
    using r(2) m by (simp add: r(1) fixed6_def)
  show "is_finite (to_double neg x)" by (simp add: r(1))
  show "literal_tokens (to_double neg x) =
           (if neg then [TMinus] else []) @ [TNum (real j / 1000000)]"
    using r(2) m by (simp add: r(1) literal_tokens_def)
qed

subsection \<open>The numbers of the example scenes\<close>

lemma example_mult:
  "format_f (to_double False (2 / 100000)) = ''0.000020''"
  "fixed6 (fval (to_double False (2 / 100000))) = 2 / 100000"
  "is_finite (to_double False (2 / 100000))"
  "literal_tokens (to_double False (2 / 100000)) = [TNum (2 / 100000)]"
proof -
  have a: "2 powi (- 1022) \<le> (2 / 100000 :: real)" "(2 / 100000 :: real) < 2 powi 1023"
    "real 20 - 1 / 2 < (2 / 100000 - 2 / 100000 / 2 ^ 53) * 1000000"
    "(2 / 100000 + 2 / 100000 / 2 ^ 53) * 1000000 < real 20 + 1 / 2"
    by simp_all
  have f: "fixed_digits 20 = ''0.000020''" by (simp add: format_eval)
  show "format_f (to_double False (2 / 100000)) = ''0.000020''"
    using to_double_micro(1) [OF a, of False] by (simp add: f)
  show "fixed6 (fval (to_double False (2 / 100000))) = 2 / 100000"
    using to_double_micro(2) [OF a, of False] by simp
  show "is_finite (to_double False (2 / 100000))"
    by (rule to_double_micro(3) [OF a])
  show "literal_tokens (to_double False (2 / 100000)) = [TNum (2 / 100000)]"
    using to_double_micro(4) [OF a, of False] by simp
qed

lemma example_add:
  "format_f (to_double True (1 / 10)) = ''-0.100000''"
  "fixed6 (fval (to_double True (1 / 10))) = - 1 / 10"
  "is_finite (to_double True (1 / 10))"
  "literal_tokens (to_double True (1 / 10)) = [TMinus, TNum (1 / 10)]"
proof -
  have a: "2 powi (- 1022) \<le> (1 / 10 :: real)" "(1 / 10 :: real) < 2 powi 1023"
    "real 100000 - 1 / 2 < (1 / 10 - 1 / 10 / 2 ^ 53) * 1000000"
    "(1 / 10 + 1 / 10 / 2 ^ 53) * 1000000 < real 100000 + 1 / 2"
    by simp_all
  have f: "fixed_digits 100000 = ''0.100000''" by (simp add: format_eval)
  show "format_f (to_double True (1 / 10)) = ''-0.100000''"
    using to_double_micro(1) [OF a, of True] by (simp add: f)
  show "fixed6 (fval (to_double True (1 / 10))) = - 1 / 10"
    using to_double_micro(2) [OF a, of True] by simp
  show "is_finite (to_double True (1 / 10))"
    by (rule to_double_micro(3) [OF a])
  show "literal_tokens (to_double True (1 / 10)) = [TMinus, TNum (1 / 10)]"
    using to_double_micro(4) [OF a, of True] by simp
qed

lemma exact_doubles:
  "to_double False 60 = Fin 60"
  "to_double False 30 = Fin 30"
  "to_double True 30 = Fin (- 30)"
  "to_double False 120 = Fin 120"
  "to_double False (1 / 65536) = Fin (1 / 65536)"
  "to_double True (1 / 8) = Fin (- 1 / 8)"
  "to_double False (13313 / 256) = Fin (13313 / 256)"
  "to_double False (9727 / 256) = Fin (9727 / 256)"
  using to_double_exact [of 60 60 0 False] to_double_exact [of 30 30 0 False]
    to_double_exact [of 30 30 0 True] to_double_exact [of 120 120 0 False]
    to_double_exact [of "1 / 65536" 1 "- 16" False] to_double_exact [of "1 / 8" 1 "- 3" True]
    to_double_exact [of "13313 / 256" 13313 "- 8" False]
    to_double_exact [of "9727 / 256" 9727 "- 8" False]
  by simp_all

lemma zenith_values:
  "sub_from_90 (Fin 60) = Fin 30"
  "sub_from_90 (Fin 120) = Fin (- 30)"
  "sub_from_90 (Fin (13313 / 256)) = Fin (9727 / 256)"
  by (simp_all add: exact_doubles)

lemma micro_values:
  "micro 30 = 30000000" "micro 60 = 60000000"
  "micro (1 / 65536) = 15" "micro (1 / 8) = 125000" "micro (9727 / 256) = 37996094"
  by (rule micro_between; simp)+


subsection \<open>Reading the expression\<close>















subsection \<open>Evaluating the expression\<close>




subsection \<open>The example scene, band by band\<close>

lemmas band_eval = band_body_cases import_actions_def tif_path_def rast_name_def rho_name_def
  mapcalc_expr_def path_join_def basename_def suffix_to_prefix lower_def lower_char_def

lemma band_4_actions:
  assumes "map_of d (''REFLECTANCE_MULT_BAND_'' @ ''4'') = Some mv"
    and "map_of d (''REFLECTANCE_ADD_BAND_'' @ ''4'') = Some av"
    and "map_of d ''SUN_ELEVATION'' = Some sv"
    and "format_f mv = M" and "format_f av = A" and "format_f (sub_from_90 sv) = Z"
  shows "band_body ''/data/LC8'' d ''4'' =
     ([Message ''Working on /data/LC8/LC8_B4.TIF '',
       Run_command ''r.in.gdal'' [(''input'', ''/data/LC8/LC8_B4.TIF''), (''output'', ''lc8_b4'')] True,
       Run_command ''g.region'' [(''rast'', ''lc8_b4''), (''flags'', ''p'')] False,
       Message (''Calculating expression: lc8_b4_reflect = ('' @ M @ ''*lc8_b4+('' @ A @
                ''))/cos('' @ Z @ '')''),
       Mapcalc (''lc8_b4_reflect = ('' @ M @ ''*lc8_b4+('' @ A @ ''))/cos('' @ Z @ '')'') True,
       Message ''Created reflectance raster: lc8_b4_reflect''],
      None)"
  unfolding band_body_complete [OF assms(1-3)] assms(4-6)
  by (simp add: import_actions_def tif_path_def rast_name_def rho_name_def mapcalc_expr_def
      path_join_def basename_def suffix_to_prefix lower_def lower_char_def)

lemma formatted_angles:
  "format_f (sub_from_90 (Fin 60)) = ''30.000000''"
  "format_f (sub_from_90 (Fin 120)) = ''-30.000000''"
  "format_f (sub_from_90 (Fin (13313 / 256))) = ''37.996094''"
  unfolding zenith_values
  by (simp_all add: micro_values micro_minus format_eval)


lemma example_band_4:
  "band_body ''/data/LC8'' example_table ''4'' =
     ([Message ''Working on /data/LC8/LC8_B4.TIF '',
       Run_command ''r.in.gdal'' [(''input'', ''/data/LC8/LC8_B4.TIF''), (''output'', ''lc8_b4'')] True,
       Run_command ''g.region'' [(''rast'', ''lc8_b4''), (''flags'', ''p'')] False,
       Message ''Calculating expression: lc8_b4_reflect = (0.000020*lc8_b4+(-0.100000))/cos(30.000000)'',
       Mapcalc ''lc8_b4_reflect = (0.000020*lc8_b4+(-0.100000))/cos(30.000000)'' True,
       Message ''Created reflectance raster: lc8_b4_reflect''],
      None)"
proof -
  have "map_of example_table (''REFLECTANCE_MULT_BAND_'' @ ''4'') = Some (to_double False (2 / 100000))"
    and "map_of example_table (''REFLECTANCE_ADD_BAND_'' @ ''4'') = Some (to_double True (1 / 10))"
    and "map_of example_table ''SUN_ELEVATION'' = Some (Fin 60)"
    by (simp_all add: example_table_def)
  from band_4_actions [OF this example_mult(1) example_add(1) formatted_angles(1)]
  show ?thesis by simp
qed

lemma example_band_5:
  "band_body ''/data/LC8'' example_table ''5'' =
     ([Message ''Working on /data/LC8/LC8_B5.TIF '',
       Run_command ''r.in.gdal'' [(''input'', ''/data/LC8/LC8_B5.TIF''), (''output'', ''lc8_b5'')] True,
       Run_command ''g.region'' [(''rast'', ''lc8_b5''), (''flags'', ''p'')] False],
      Some (KeyError ''REFLECTANCE_MULT_BAND_5''))"
  by (simp add: example_table_def band_eval)

subsection \<open>Names of files and layers\<close>

text \<open>
  C9. For every scene directory and band \<open>b\<close>, the first three GRASS calls of the
  band are the log line, the import of the file \<^verbatim>\<open><base>_B<b>.TIF\<close> joined to the scene
  directory into the layer named by the lower-cased base name and \<^verbatim>\<open>_b<b>\<close>, and the
  region set from that layer; every expression submitted for the band assigns to
  that layer name suffixed with \<^verbatim>\<open>_reflect\<close>; and in a run that completes, these calls
  are made for every requested band.
\<close>

theorem band_layer_names:
  "take 3 (fst (band_body dir d b)) =
     [Message (''Working on '' @ tif_path dir b @ '' ''),
      Run_command ''r.in.gdal'' [(''input'', tif_path dir b), (''output'', rast_name dir b)] True,
      Run_command ''g.region'' [(''rast'', rast_name dir b), (''flags'', ''p'')] False] \<and>
   tif_path dir b =
     (if dir = [] \<or> suffix ''/'' dir then dir else dir @ ''/'') @
     basename dir @ ''_B'' @ b @ ''.TIF'' \<and>
   rast_name dir b = lower (basename dir) @ ''_b'' @ b \<and>
   (\<forall>e ow. Mapcalc e ow \<in> set (fst (band_body dir d b)) \<longrightarrow>
      prefix (rast_name dir b @ ''_reflect = ('') e) \<and>
   (b \<in> set bands \<and> snd (dn_to_reflectance dir d bands) = None \<longrightarrow>
      set (fst (band_body dir d b)) \<subseteq> set (fst (dn_to_reflectance dir d bands)))"
proof -
  have m: "prefix (rast_name dir b @ ''_reflect = ('') e"
    if "Mapcalc e ow \<in> set (fst (band_body dir d b))" for e ow
    using band_body_mapcalc [OF that] by (auto simp: mapcalc_expr_def rho_name_def)
  have l: "set (fst (band_body dir d b)) \<subseteq> set (fst (dn_to_reflectance dir d bands))"
    if "b \<in> set bands" "snd (dn_to_reflectance dir d bands) = None"
  proof -
    have "\<forall>x\<in>set bands. snd (band_body dir d x) = None"
      using that(2) band_loop_all_complete [of dir d bands 0] by (simp add: dn_to_reflectance_def)
    from band_loop_success [OF this, of 0] that(1) show ?thesis
      by (auto simp: dn_to_reflectance_def)
  qed
  show ?thesis
    using m l by (simp add: band_body_start import_actions_def tif_path_inside rast_name_def)
qed

theorem band_layer_names_witness:
  "take 3 (fst (band_body ''/data/LC8'' example_table ''4'')) =
     [Message ''Working on /data/LC8/LC8_B4.TIF '',
      Run_command ''r.in.gdal'' [(''input'', ''/data/LC8/LC8_B4.TIF''), (''output'', ''lc8_b4'')] True,
      Run_command ''g.region'' [(''rast'', ''lc8_b4''), (''flags'', ''p'')] False] \<and>
   Mapcalc ''lc8_b4_reflect = (0.000020*lc8_b4+(-0.100000))/cos(30.000000)'' True
     \<in> set (fst (band_body ''/data/LC8'' example_table ''4'')) \<and>
   prefix ''lc8_b4_reflect = ('' ''lc8_b4_reflect = (0.000020*lc8_b4+(-0.100000))/cos(30.000000)'' \<and>
   snd (dn_to_reflectance ''/data/LC8'' example_table [''4'']) = None \<and>
   set (fst (band_body ''/data/LC8'' example_table ''4''))
     \<subseteq> set (fst (dn_to_reflectance ''/data/LC8'' example_table [''4'']))"
proof -
  let ?e = "''lc8_b4_reflect = (0.000020*lc8_b4+(-0.100000))/cos(30.000000)''"
  have h1: "Mapcalc ?e True \<in> set (fst (band_body ''/data/LC8'' example_table ''4''))"
    by (simp add: example_band_4)
  have h2: "snd (dn_to_reflectance ''/data/LC8'' example_table [''4'']) = None"
    by (simp add: dn_to_reflectance_def example_band_4)
  have n: "rast_name ''/data/LC8'' ''4'' = ''lc8_b4''" "tif_path ''/data/LC8'' ''4'' = ''/data/LC8/LC8_B4.TIF''"
    by (simp_all add: band_eval)
  from band_layer_names [of "''/data/LC8''" example_table "''4''" "[''4'']"] h1 h2
  show ?thesis unfolding n by auto
qed

subsection \<open>Missing coefficients\<close>

text \<open>
  C4. When the dict lacks \<^verbatim>\<open>REFLECTANCE_MULT_BAND_<b>\<close> or \<^verbatim>\<open>REFLECTANCE_ADD_BAND_<b>\<close>
  for a requested band \<open>b\<close>, the band's loop body raises \<^verbatim>\<open>KeyError\<close> for the first of
  the two that is missing, after the import and before any expression is built, so
  it submits none; \<^verbatim>\<open>dn_to_reflectance\<close> ends with a \<^verbatim>\<open>KeyError\<close>; and every expression it
  has submitted belongs to a requested band whose three keys are all in the dict,
  hence to no band with a missing coefficient.
\<close>

theorem missing_coefficient_is_fatal:
  assumes "b \<in> set bands"
    and "map_of d (''REFLECTANCE_MULT_BAND_'' @ b) = None \<or>
         map_of d (''REFLECTANCE_ADD_BAND_'' @ b) = None"
  shows "band_body dir d b =
           (import_actions dir b,
            Some (KeyError (if map_of d (''REFLECTANCE_MULT_BAND_'' @ b) = None
                            then ''REFLECTANCE_MULT_BAND_'' @ b
                            else ''REFLECTANCE_ADD_BAND_'' @ b))) \<and>
         (\<forall>e ow. Mapcalc e ow \<notin> set (fst (band_body dir d b))) \<and>
         (\<exists>k. snd (dn_to_reflectance dir d bands) = Some (KeyError k)) \<and>
         (\<forall>e ow. Mapcalc e ow \<in> set (fst (dn_to_reflectance dir d bands)) \<longrightarrow>
            (\<exists>b'\<in>set bands.
               map_of d (''REFLECTANCE_MULT_BAND_'' @ b') \<noteq> None \<and>
               map_of d (''REFLECTANCE_ADD_BAND_'' @ b') \<noteq> None \<and>
               map_of d ''SUN_ELEVATION'' \<noteq> None \<and>
               Mapcalc e ow \<in> set (fst (band_body dir d b'))))"
proof -
  have bb: "band_body dir d b =
           (import_actions dir b,
            Some (KeyError (if map_of d (''REFLECTANCE_MULT_BAND_'' @ b) = None
                            then ''REFLECTANCE_MULT_BAND_'' @ b
                            else ''REFLECTANCE_ADD_BAND_'' @ b)))"
    using assms(2) by (rule band_body_missing)
  then have nm: "Mapcalc e ow \<notin> set (fst (band_body dir d b))" for e ow
    by (simp add: import_actions_no_mapcalc)
  have "snd (band_body dir d b) \<noteq> None" using bb by simp
  from band_loop_failure [OF assms(1) this, of 0]
  have err: "\<exists>k. snd (dn_to_reflectance dir d bands) = Some (KeyError k)"
    by (simp add: dn_to_reflectance_def)
  have sub: "\<exists>b'\<in>set bands.
               map_of d (''REFLECTANCE_MULT_BAND_'' @ b') \<noteq> None \<and>
               map_of d (''REFLECTANCE_ADD_BAND_'' @ b') \<noteq> None \<and>
               map_of d ''SUN_ELEVATION'' \<noteq> None \<and>
               Mapcalc e ow \<in> set (fst (band_body dir d b'))"
    if "Mapcalc e ow \<in> set (fst (dn_to_reflectance dir d bands))" for e ow
  proof -
    from band_loop_actions [of "Mapcalc e ow" dir d bands 0] that
    obtain b' where b': "b' \<in> set bands" "Mapcalc e ow \<in> set (fst (band_body dir d b'))"
      by (auto simp: dn_to_reflectance_def)
    from band_body_mapcalc [OF b'(2)] b' show ?thesis by auto
  qed
  from bb nm err sub show ?thesis by blast
qed

theorem missing_coefficient_witness:
  "band_body ''/data/LC8'' example_table ''5'' =
     (import_actions ''/data/LC8'' ''5'', Some (KeyError ''REFLECTANCE_MULT_BAND_5'')) \<and>
   (\<exists>k. snd (dn_to_reflectance ''/data/LC8'' example_table [''4'', ''5'']) = Some (KeyError k)) \<and>
   dn_to_reflectance ''/data/LC8'' example_table [''4'', ''5''] =
     ([Message ''Working on /data/LC8/LC8_B4.TIF '',
       Run_command ''r.in.gdal'' [(''input'', ''/data/LC8/LC8_B4.TIF''), (''output'', ''lc8_b4'')] True,
       Run_command ''g.region'' [(''rast'', ''lc8_b4''), (''flags'', ''p'')] False,
       Message ''Calculating expression: lc8_b4_reflect = (0.000020*lc8_b4+(-0.100000))/cos(30.000000)'',
       Mapcalc ''lc8_b4_reflect = (0.000020*lc8_b4+(-0.100000))/cos(30.000000)'' True,
       Message ''Created reflectance raster: lc8_b4_reflect'',
       Message ''Working on /data/LC8/LC8_B5.TIF '',
       Run_command ''r.in.gdal'' [(''input'', ''/data/LC8/LC8_B5.TIF''), (''output'', ''lc8_b5'')] True,
       Run_command ''g.region'' [(''rast'', ''lc8_b5''), (''flags'', ''p'')] False],
      Some (KeyError ''REFLECTANCE_MULT_BAND_5''))"
proof -
  have h1: "''5'' \<in> set [''4'', ''5'']" by simp
  have h2: "map_of example_table (''REFLECTANCE_MULT_BAND_'' @ ''5'') = None \<or>
            map_of example_table (''REFLECTANCE_ADD_BAND_'' @ ''5'') = None"
    by (simp add: example_table_def)
  have m: "map_of example_table (''REFLECTANCE_MULT_BAND_'' @ ''5'') = None"
    by (simp add: example_table_def)
  have run: "dn_to_reflectance ''/data/LC8'' example_table [''4'', ''5''] =
     ([Message ''Working on /data/LC8/LC8_B4.TIF '',
       Run_command ''r.in.gdal'' [(''input'', ''/data/LC8/LC8_B4.TIF''), (''output'', ''lc8_b4'')] True,
       Run_command ''g.region'' [(''rast'', ''lc8_b4''), (''flags'', ''p'')] False,
       Message ''Calculating expression: lc8_b4_reflect = (0.000020*lc8_b4+(-0.100000))/cos(30.000000)'',
       Mapcalc ''lc8_b4_reflect = (0.000020*lc8_b4+(-0.100000))/cos(30.000000)'' True,
       Message ''Created reflectance raster: lc8_b4_reflect'',
       Message ''Working on /data/LC8/LC8_B5.TIF '',
       Run_command ''r.in.gdal'' [(''input'', ''/data/LC8/LC8_B5.TIF''), (''output'', ''lc8_b5'')] True,
       Run_command ''g.region'' [(''rast'', ''lc8_b5''), (''flags'', ''p'')] False],
      Some (KeyError ''REFLECTANCE_MULT_BAND_5''))"
    by (simp add: dn_to_reflectance_def example_band_4 example_band_5)
  from missing_coefficient_is_fatal [OF h1 h2, of "''/data/LC8''"] m run
  show ?thesis by simp
qed

subsection \<open>The example scenario\<close>






subsection \<open>Scenes with more than six decimals\<close>

lemma scene_table:
  assumes "scan_lines (readlines contents) [] = Inr t"
  shows "snd (get_metadata (scene_fs (Some contents)) ''/data/LC8'' bands) = Inr t"
proof -
  have "files (scene_fs (Some contents)) (mtl_path_of ''/data/LC8'') = Some contents"
    by (simp add: scene_fs_def path_eval)
  then show ?thesis
    by (simp only: snd_get_metadata option.case assms)
qed


lemma fine_sun_scene_table:
  "snd (get_metadata (scene_fs (Some fine_sun_mtl)) ''/data/LC8'' bands) = Inr fine_sun_table"
proof (rule scene_table)
  have "readlines fine_sun_mtl =
     [''SUN_ELEVATION = 52.00390625\<newline>'',
      ''REFLECTANCE_MULT_BAND_4 = 2.0E-5\<newline>'',
      ''REFLECTANCE_ADD_BAND_4 = -0.1\<newline>'']"
    by (simp add: fine_sun_mtl_def readlines_def)
  then show "scan_lines (readlines fine_sun_mtl) [] = Inr fine_sun_table"
    by (simp add: scan_eval fine_sun_table_def exact_doubles)
qed

lemma fixed6_values:
  "fixed6 30 = 30" "fixed6 (- 30) = - 30" "fixed6 (1 / 65536) = 15 / 1000000"
  "fixed6 (- 1 / 8) = - 1 / 8" "fixed6 (9727 / 256) = 37996094 / 1000000"
proof -
  have "micro (- 30) = 30000000" "micro (- 1 / 8) = 125000"
    using micro_minus [of 30] micro_minus [of "1 / 8"] by (simp_all add: micro_values)
  then show "fixed6 30 = 30" "fixed6 (- 30) = - 30" "fixed6 (1 / 65536) = 15 / 1000000"
    "fixed6 (- 1 / 8) = - 1 / 8" "fixed6 (9727 / 256) = 37996094 / 1000000"
    by (simp_all add: fixed6_def micro_values)
qed


lemma layer_names:
  "rast_name ''/data/LC8'' ''4'' = ''lc8_b4''" "rho_name ''/data/LC8'' ''4'' = ''lc8_b4_reflect''"
  "is_name ''lc8_b4''"
  by (simp_all add: rast_name_def rho_name_def basename_def lower_def lower_char_def
      is_name_def word_char_def is_letter_def is_digit_def)



lemma sun_table_band_4:
  assumes "format_f (sub_from_90 (Fin s)) = Z"
  shows "band_body ''/data/LC8'' (sun_table s) ''4'' =
     ([Message ''Working on /data/LC8/LC8_B4.TIF '',
       Run_command ''r.in.gdal'' [(''input'', ''/data/LC8/LC8_B4.TIF''), (''output'', ''lc8_b4'')] True,
       Run_command ''g.region'' [(''rast'', ''lc8_b4''), (''flags'', ''p'')] False,
       Message (''Calculating expression: lc8_b4_reflect = (0.000020*lc8_b4+(-0.100000))/cos('' @ Z @ '')''),
       Mapcalc (''lc8_b4_reflect = (0.000020*lc8_b4+(-0.100000))/cos('' @ Z @ '')'') True,
       Message ''Created reflectance raster: lc8_b4_reflect''],
      None)"
proof -
  have "map_of (sun_table s) (''REFLECTANCE_MULT_BAND_'' @ ''4'') = Some (to_double False (2 / 100000))"
    and "map_of (sun_table s) (''REFLECTANCE_ADD_BAND_'' @ ''4'') = Some (to_double True (1 / 10))"
    and "map_of (sun_table s) ''SUN_ELEVATION'' = Some (Fin s)"
    by (simp_all add: sun_table_def)
  from band_4_actions [OF this example_mult(1) example_add(1) assms]
  show ?thesis by simp
qed

lemma fine_sun_band_4:
  "band_body ''/data/LC8'' fine_sun_table ''4'' =
     ([Message ''Working on /data/LC8/LC8_B4.TIF '',
       Run_command ''r.in.gdal'' [(''input'', ''/data/LC8/LC8_B4.TIF''), (''output'', ''lc8_b4'')] True,
       Run_command ''g.region'' [(''rast'', ''lc8_b4''), (''flags'', ''p'')] False,
       Message ''Calculating expression: lc8_b4_reflect = (0.000020*lc8_b4+(-0.100000))/cos(37.996094)'',
       Mapcalc ''lc8_b4_reflect = (0.000020*lc8_b4+(-0.100000))/cos(37.996094)'' True,
       Message ''Created reflectance raster: lc8_b4_reflect''],
      None)"
proof -
  have "fine_sun_table = sun_table (13313 / 256)"
    by (simp add: fine_sun_table_def sun_table_def)
  with sun_table_band_4 [OF formatted_angles(3)] show ?thesis by simp
qed

lemma expression_text:
  "rho @ '' = ('' @ M @ ''*'' @ rast @ ''+('' @ A @ ''))/cos('' @ Z @ '')'' =
     mapcalc_expr rho M rast A Z"
  by (simp add: mapcalc_expr_def)

subsection \<open>The submitted expression\<close>





lemma low_sun_values:
  "sub_from_90 (Fin (- 10)) = Fin 100" "format_f (Fin 100) = ''100.000000''" "fixed6 100 = 100"
proof -
  show "sub_from_90 (Fin (- 10)) = Fin 100"
    using to_double_exact [of 100 100 0 False] by simp
  have m: "micro 100 = 100000000" by (rule micro_between) simp_all
  then show "format_f (Fin 100) = ''100.000000''" by (simp add: format_eval)
  show "fixed6 100 = 100" by (simp add: fixed6_def m)
qed

lemma sub_from_90_near:
  assumes "\<bar>90 - s\<bar> < 2 powi 1023"
  shows "is_finite (sub_from_90 (Fin s))"
    and "\<bar>fval (sub_from_90 (Fin s)) - (90 - s)\<bar> \<le> \<bar>90 - s\<bar> / 2 ^ 53 + 2 powi (- 1075)"
proof -
  have "(if 90 - s < 0 then - \<bar>90 - s\<bar> else \<bar>90 - s\<bar>) = 90 - s" by simp
  with to_double_absolute [OF abs_ge_zero assms, of "90 - s < 0"]
  show "is_finite (sub_from_90 (Fin s))"
    and "\<bar>fval (sub_from_90 (Fin s)) - (90 - s)\<bar> \<le> \<bar>90 - s\<bar> / 2 ^ 53 + 2 powi (- 1075)"
    by (simp_all only: sub_from_90.simps)
qed

lemma sub_from_90_exact:
  assumes "\<bar>90 - s\<bar> = real m * 2 powi k" and "m < 2 ^ 53" and "- 1074 \<le> k" and "k \<le> 970"
  shows "sub_from_90 (Fin s) = Fin (90 - s)"
proof -
  have "sub_from_90 (Fin s) =
          (if 90 - s < 0 then (if \<bar>90 - s\<bar> = 0 then NZero else Fin (- \<bar>90 - s\<bar>))
           else Fin \<bar>90 - s\<bar>)"
    by (simp only: sub_from_90.simps to_double_exact [OF assms])
  then show ?thesis by (simp split: if_splits)
qed

subsection \<open>The zenith angle\<close>

text \<open>
  C6, as amended. For every band whose three keys are in the dict and every
  float stored as sun elevation, the loop body submits the expression whose angle
  is the text that \<^verbatim>\<open>'{:f}'\<close> writes for the float \<^verbatim>\<open>90.0 - sun\<close>. For a finite sun elevation
  \<open>s\<close>, negative and above \<open>90\<close> included, with \<open>90 - s\<close> of magnitude below \<open>2 ^ 1023\<close>, that
  float is the double nearest to \<open>90 - s\<close>, with no clamping and no wraparound: it is
  finite, within \<open>\<bar>90 - s\<bar> / 2 ^ 53 + 2 ^ -1075\<close> of \<open>90 - s\<close>, and equal to \<open>90 - s\<close> when
  that number is a double. The text in the expression denotes the float rounded to
  six decimals, within \<open>0.0000005\<close> of it.
\<close>

theorem zenith_in_expression:
  assumes "map_of d (''REFLECTANCE_MULT_BAND_'' @ b) = Some mv"
    and "map_of d (''REFLECTANCE_ADD_BAND_'' @ b) = Some av"
    and "map_of d ''SUN_ELEVATION'' = Some sv"
  shows "Mapcalc (rho_name dir b @ '' = ('' @ format_f mv @ ''*'' @ rast_name dir b @ ''+('' @
               format_f av @ ''))/cos('' @ format_f (sub_from_90 sv) @ '')'') True
           \<in> set (fst (band_body dir d b)) \<and>
         (sv = Fin s \<and> \<bar>90 - s\<bar> < 2 powi 1023 \<longrightarrow>
            is_finite (sub_from_90 sv) \<and>
            \<bar>fval (sub_from_90 sv) - (90 - s)\<bar> \<le> \<bar>90 - s\<bar> / 2 ^ 53 + 2 powi (- 1075) \<and>
            (\<bar>90 - s\<bar> = real m * 2 powi k \<and> m < 2 ^ 53 \<and> - 1074 \<le> k \<and> k \<le> 970 \<longrightarrow>
               sub_from_90 sv = Fin (90 - s))) \<and>
         (is_finite (sub_from_90 sv) \<longrightarrow>
            literal_real (format_f (sub_from_90 sv)) = Some (fixed6 (fval (sub_from_90 sv))) \<and>
            \<bar>fixed6 (fval (sub_from_90 sv)) - fval (sub_from_90 sv)\<bar> \<le> 1 / 2000000)"
proof -
  have "Mapcalc (rho_name dir b @ '' = ('' @ format_f mv @ ''*'' @ rast_name dir b @ ''+('' @
               format_f av @ ''))/cos('' @ format_f (sub_from_90 sv) @ '')'') True
           \<in> set (fst (band_body dir d b))"
    unfolding expression_text band_body_complete [OF assms] by simp
  then show ?thesis
    using sub_from_90_near sub_from_90_exact literal_real_format_f fixed6_near by blast
qed

theorem zenith_in_expression_witness:
  "Mapcalc ''lc8_b4_reflect = (0.000020*lc8_b4+(-0.100000))/cos(-30.000000)'' True
     \<in> set (fst (band_body ''/data/LC8'' (sun_table 120) ''4'')) \<and>
   sub_from_90 (Fin 120) = Fin (- 30) \<and>
   literal_real ''-30.000000'' = Some (- 30) \<and>
   Mapcalc ''lc8_b4_reflect = (0.000020*lc8_b4+(-0.100000))/cos(100.000000)'' True
     \<in> set (fst (band_body ''/data/LC8'' (sun_table (- 10)) ''4'')) \<and>
   sub_from_90 (Fin (- 10)) = Fin 100 \<and>
   literal_real ''100.000000'' = Some 100"
proof -
  have h: "map_of (sun_table s) (''REFLECTANCE_MULT_BAND_'' @ ''4'') = Some (to_double False (2 / 100000))"
    "map_of (sun_table s) (''REFLECTANCE_ADD_BAND_'' @ ''4'') = Some (to_double True (1 / 10))"
    "map_of (sun_table s) ''SUN_ELEVATION'' = Some (Fin s)" for s
    by (simp_all add: sun_table_def)
  have a1: "\<bar>90 - 120\<bar> < (2::real) powi 1023"
    and a2: "\<bar>90 - 120\<bar> = real 30 * 2 powi 0 \<and> (30::nat) < 2 ^ 53 \<and> - 1074 \<le> (0::int) \<and> (0::int) \<le> 970"
    and b1: "\<bar>90 - (- 10)\<bar> < (2::real) powi 1023"
    and b2: "\<bar>90 - (- 10)\<bar> = real 100 * 2 powi 0 \<and> (100::nat) < 2 ^ 53 \<and> - 1074 \<le> (0::int) \<and> (0::int) \<le> 970"
    by simp_all
  have d: "(90::real) - 120 = - 30" "(90::real) - (- 10) = 100" by simp_all
  from zenith_in_expression [where dir = "''/data/LC8''" and s = 120 and m = 30 and k = 0, OF h] a1 a2
  have m1: "Mapcalc (rho_name ''/data/LC8'' ''4'' @ '' = ('' @ format_f (to_double False (2 / 100000)) @
               ''*'' @ rast_name ''/data/LC8'' ''4'' @ ''+('' @ format_f (to_double True (1 / 10)) @
               ''))/cos('' @ format_f (sub_from_90 (Fin 120)) @ '')'') True
           \<in> set (fst (band_body ''/data/LC8'' (sun_table 120) ''4''))"
    and z1: "sub_from_90 (Fin 120) = Fin (90 - 120)"
    and l1: "is_finite (sub_from_90 (Fin 120)) \<longrightarrow>
             literal_real (format_f (sub_from_90 (Fin 120))) =
               Some (fixed6 (fval (sub_from_90 (Fin 120))))"
    by blast+
  from zenith_in_expression [where dir = "''/data/LC8''" and s = "- 10" and m = 100 and k = 0, OF h] b1 b2
  have m2: "Mapcalc (rho_name ''/data/LC8'' ''4'' @ '' = ('' @ format_f (to_double False (2 / 100000)) @
               ''*'' @ rast_name ''/data/LC8'' ''4'' @ ''+('' @ format_f (to_double True (1 / 10)) @
               ''))/cos('' @ format_f (sub_from_90 (Fin (- 10))) @ '')'') True
           \<in> set (fst (band_body ''/data/LC8'' (sun_table (- 10)) ''4''))"
    and z2: "sub_from_90 (Fin (- 10)) = Fin (90 - (- 10))"
    and l2: "is_finite (sub_from_90 (Fin (- 10))) \<longrightarrow>
             literal_real (format_f (sub_from_90 (Fin (- 10)))) =
               Some (fixed6 (fval (sub_from_90 (Fin (- 10)))))"
    by blast+
  have f: "format_f (Fin (- 30)) = ''-30.000000''"
    using formatted_angles(2) by (simp only: zenith_values)
  have c1: "Mapcalc ''lc8_b4_reflect = (0.000020*lc8_b4+(-0.100000))/cos(-30.000000)'' True
     \<in> set (fst (band_body ''/data/LC8'' (sun_table 120) ''4''))"
    using m1 unfolding z1 d f layer_names example_mult(1) example_add(1)
    by (simp only: append.simps)
  have c2: "Mapcalc ''lc8_b4_reflect = (0.000020*lc8_b4+(-0.100000))/cos(100.000000)'' True
     \<in> set (fst (band_body ''/data/LC8'' (sun_table (- 10)) ''4''))"
    using m2 unfolding z2 d low_sun_values(2) layer_names example_mult(1) example_add(1)
    by (simp only: append.simps)
  have c3: "literal_real ''-30.000000'' = Some (- 30)"
    using l1 unfolding z1 d f fval.simps fixed6_values by simp
  have c4: "literal_real ''100.000000'' = Some 100"
    using l2 unfolding z2 d low_sun_values(2,3) fval.simps by simp
  show ?thesis
    using c1 c2 c3 c4 z1 z2 unfolding d by blast
qed

text \<open>
  C6, as stated, fails: the claim has the angle in the expression equal \<open>90 - s\<close>
  exactly. The metadata line \<^verbatim>\<open>SUN_ELEVATION = 52.00390625\<close> stores the double
  \<open>52 + 2 ^ -8\<close>, which is that number exactly; the zenith angle computed is the double
  \<open>37.99609375\<close>, which is \<open>90 - s\<close> exactly, and the expression holds \<^verbatim>\<open>37.996094\<close>.
\<close>

theorem zenith_exact_counterexample:
  "snd (get_metadata (scene_fs (Some fine_sun_mtl)) ''/data/LC8'' [''4'']) = Inr fine_sun_table \<and>
   map_of fine_sun_table ''SUN_ELEVATION'' = Some (Fin (13313 / 256)) \<and>
   sub_from_90 (Fin (13313 / 256)) = Fin (9727 / 256) \<and>
   (9727 / 256 :: real) = 90 - 13313 / 256 \<and>
   band_body ''/data/LC8'' fine_sun_table ''4'' =
     ([Message ''Working on /data/LC8/LC8_B4.TIF '',
       Run_command ''r.in.gdal'' [(''input'', ''/data/LC8/LC8_B4.TIF''), (''output'', ''lc8_b4'')] True,
       Run_command ''g.region'' [(''rast'', ''lc8_b4''), (''flags'', ''p'')] False,
       Message ''Calculating expression: lc8_b4_reflect = (0.000020*lc8_b4+(-0.100000))/cos(37.996094)'',
       Mapcalc ''lc8_b4_reflect = (0.000020*lc8_b4+(-0.100000))/cos(37.996094)'' True,
       Message ''Created reflectance raster: lc8_b4_reflect''],
      None) \<and>
   literal_real ''37.996094'' = Some (37996094 / 1000000) \<and>
   (37996094 / 1000000 :: real) \<noteq> 90 - 13313 / 256"
proof -
  have t: "map_of fine_sun_table ''SUN_ELEVATION'' = Some (Fin (13313 / 256))"
    by (simp add: fine_sun_table_def)
  have e: "(9727 / 256 :: real) = 90 - 13313 / 256" by simp
  have ne: "(37996094 / 1000000 :: real) \<noteq> 90 - 13313 / 256" by simp
  have f: "format_f (Fin (9727 / 256)) = ''37.996094''"
    using formatted_angles(3) by (simp only: zenith_values)
  have l: "literal_real ''37.996094'' = Some (37996094 / 1000000)"
    using literal_real_format_f [of "Fin (9727 / 256)"]
    unfolding f fval.simps fixed6_values by simp
  from fine_sun_scene_table [of "[''4'']"] t zenith_values(3) e fine_sun_band_4 l ne
  show ?thesis by blast
qed

end
